theory Spec2Isabelle
  imports Main
begin

section \<open>Values: errors, panics, outcomes\<close>

text \<open>
  A Go \<open>error\<close> value. The program compares errors only against the sentinel
  \<open>context.DeadlineExceeded\<close>; \<open>Canceled\<close> is \<open>context.Canceled\<close>, and every
  other error (a resolver's failure, the LRU constructor's complaint) is a \<open>ResolveError\<close>
  carrying its message. A nil error is \<open>None\<close> of \<open>error option\<close>.
\<close>

datatype error = Canceled | DeadlineExceeded | ResolveError string

text \<open>
  A call either returns, panics (the two \<open>panic(...)\<close> statements of \<open>lookupFunc\<close>, and
  the run-time panic of a method call on a cache with no LRU behind it), or blocks forever
  in the \<open>select\<close> of \<open>update\<close>.
\<close>

datatype panic = PanicMsg string | NilDereference

datatype 'a outcome = Returns 'a | Panics panic | Blocks

section \<open>The bounded store (github.com/hashicorp/golang-lru)\<close>

text \<open>\<open>cacheEntry\<close> of dnscache.go: the result strings and the failure of one key.
  A nil slice and an empty slice are both the empty list.\<close>

record cacheEntry =
  rrs :: "string list"
  err :: "error option"

text \<open>
  Modelled from the spec: the Bounded Store is an external capability, the package
  golang-lru, whose code is not part of the repository. The spec describes it as a
  "fixed-capacity associative container keyed by string, evicting the least-recently-used
  entry when capacity is exceeded; supports get, insert/update, and enumeration of all
  keys", with a capacity that is a "positive integer, required". \<open>evictList\<close> holds the
  entries from the most recently used (the head) to the least recently used (the last).
\<close>

record lru =
  lru_size :: int
  evictList :: "(string \<times> cacheEntry) list"

text \<open>Modelled from the spec: the constructor \<open>lru.New\<close> of golang-lru, which is not part
  of the repository. The spec gives the capacity as a "positive integer, required": for
  such a capacity the constructor returns an empty store of that capacity and no error.
  The spec is silent on every other capacity, and the branch \<open>n \<le> 0\<close> is not taken from
  it: there the package reports an error ("must provide a positive size") and builds no
  LRU. Whether the pointer it hands back is nil or a \<open>Cache\<close> whose inner LRU is nil
  depends on the version of the package; the model does not tell the two apart, \<open>None\<close>
  stands for both, and all it says of them is that a method call dereferences nil.\<close>

definition lru_New :: "int \<Rightarrow> lru option \<times> error option" where
  "lru_New n =
     (if n \<le> 0 then (None, Some (ResolveError ''must provide a positive size''))
      else (Some \<lparr>lru_size = n, evictList = []\<rparr>, None))"

text \<open>Modelled from the spec: \<open>Get\<close> returns the value of a key and marks the key as the
  most recently used; a key that is absent changes nothing.\<close>

definition lru_Get :: "lru \<Rightarrow> string \<Rightarrow> cacheEntry option \<times> lru" where
  "lru_Get c key =
     (case map_of (evictList c) key of
        None \<Rightarrow> (None, c)
      | Some v \<Rightarrow> (Some v, c\<lparr>evictList := (key, v) # filter (\<lambda>p. fst p \<noteq> key) (evictList c)\<rparr>))"

text \<open>Modelled from the spec: \<open>Add\<close> overwrites the value of a key that is present and
  makes it the most recently used; a new key is put in front, and when the store then
  holds more than its capacity the least recently used entry is removed.\<close>

definition lru_Add :: "lru \<Rightarrow> string \<Rightarrow> cacheEntry \<Rightarrow> lru" where
  "lru_Add c key v =
     (case map_of (evictList c) key of
        Some old \<Rightarrow> c\<lparr>evictList := (key, v) # filter (\<lambda>p. fst p \<noteq> key) (evictList c)\<rparr>
      | None \<Rightarrow>
          (let l = (key, v) # evictList c
           in if lru_size c < int (length l) then c\<lparr>evictList := butlast l\<rparr>
              else c\<lparr>evictList := l\<rparr>))"

text \<open>Modelled from the spec: \<open>Keys\<close> enumerates the keys, from the oldest to the
  newest.\<close>

definition lru_Keys :: "lru \<Rightarrow> string list" where
  "lru_Keys c = rev (map fst (evictList c))"

text \<open>The assignment through the pointer that \<open>Get\<close> returned
  (\<open>entry.(*cacheEntry).rrs = rrs\<close>, \<open>entry.(*cacheEntry).err = err\<close>): the entry stored
  under the key is overwritten where it stands.\<close>

definition assign_entry :: "lru \<Rightarrow> string \<Rightarrow> cacheEntry \<Rightarrow> lru" where
  "assign_entry c key v =
     c\<lparr>evictList := map (\<lambda>p. if fst p = key then (key, v) else p) (evictList c)\<rparr>"

section \<open>The flight coordinator (golang.org/x/sync/singleflight)\<close>

text \<open>\<open>singleflight.Result\<close>: what a waiter receives on its channel. \<open>Val\<close> is the
  \<open>[]string\<close> the unit of work returned.\<close>

record Result =
  Val :: "string list"
  Err :: "error option"
  Shared :: bool

text \<open>
  Modelled from the spec: the Flight Coordinator is the external package singleflight; the
  program uses one process-wide \<open>lookupGroup\<close>. \<open>group_m\<close> is the in-flight registry
  (key to call), \<open>calls\<close> holds for every call ever started the number of callers that
  attached to it after the one that started it (\<open>dups\<close>). A call is named by its index in
  \<open>calls\<close>.
\<close>

record Group =
  group_m :: "(string \<times> nat) list"
  calls :: "nat list"

definition call_dups :: "Group \<Rightarrow> nat \<Rightarrow> nat" where
  "call_dups g c = (if c < length (calls g) then calls g ! c else 0)"

text \<open>Modelled from the spec: \<open>run(key, work)\<close>, which is \<open>DoChan\<close>. "If no call is
  currently in flight for key, starts one, marking it in-flight. If a call is already in
  flight, attaches the caller as a waiter on that same call instead of starting a second
  one." The result is the call the caller waits on and whether the work was started.\<close>

definition DoChan :: "Group \<Rightarrow> string \<Rightarrow> (nat \<times> bool) \<times> Group" where
  "DoChan g key =
     (case map_of (group_m g) key of
        Some c \<Rightarrow> ((c, False), g\<lparr>calls := (calls g)[c := Suc (call_dups g c)]\<rparr>)
      | None \<Rightarrow>
          (let c = length (calls g)
           in ((c, True), g\<lparr>group_m := (key, c) # group_m g, calls := calls g @ [0]\<rparr>)))"

text \<open>Modelled from the spec: \<open>forget(key)\<close> "clears the in-flight marker for key
  immediately, without affecting an already-running unit of work".\<close>

definition Forget :: "Group \<Rightarrow> string \<Rightarrow> Group" where
  "Forget g key = g\<lparr>group_m := filter (\<lambda>p. fst p \<noteq> key) (group_m g)\<rparr>"

text \<open>Modelled from the spec: the completion of call \<open>c\<close> for \<open>key\<close>, whose work returned
  \<open>(v, e)\<close>. The in-flight marker is cleared when it still belongs to this call, and every
  waiter of the call is sent the same \<open>Result\<close>, marked shared when the call has
  duplicates.\<close>

definition doCall :: "Group \<Rightarrow> nat \<Rightarrow> string \<Rightarrow> string list \<Rightarrow> error option \<Rightarrow> Result \<times> Group" where
  "doCall g c key v e =
     (\<lparr>Val = v, Err = e, Shared = (0 < call_dups g c)\<rparr>,
      g\<lparr>group_m := (if map_of (group_m g) key = Some c
                     then filter (\<lambda>p. fst p \<noteq> key) (group_m g) else group_m g)\<rparr>)"

section \<open>The resolver (dnscache.go)\<close>

text \<open>The underlying resolution capability: \<open>net.DefaultResolver\<close> or a resolver the
  user supplied (named by a number).\<close>

datatype DNSResolver = DefaultResolver | UserResolver nat

text \<open>The struct \<open>Resolver\<close>. \<open>Resolver_dns\<close> is its field \<open>Resolver\<close> (\<open>None\<close> is nil),
  \<open>cache\<close> is the LRU behind the \<open>*lru.Cache\<close> (\<open>None\<close> when there is none, see
  \<open>lru_New\<close>), and \<open>OnCacheMiss\<close> tells whether the hook is set (not nil). The fields
  \<open>once\<close> and \<open>mu\<close> have no counterpart: every operation
  below is one atomic step.\<close>

record Resolver =
  Timeout :: int
  Resolver_dns :: "DNSResolver option"
  cache :: "lru option"
  OnCacheMiss :: bool

text \<open>What the program does to the outside: it calls the miss hook, and the unit of work
  of a flight calls \<open>LookupHost\<close> or \<open>LookupAddr\<close> of the underlying resolver, with the
  context of \<open>getCtx\<close> (the timeout when it is armed) and the subject.\<close>

datatype event =
    OnCacheMissCall
  | LookupHostCall DNSResolver "int option" string
  | LookupAddrCall DNSResolver "int option" string

text \<open>The state: the resolver object, the package variable \<open>lookupGroup\<close>, and the calls
  made so far.\<close>

record state =
  resolver :: Resolver
  lookupGroup :: Group
  trace :: "event list"

text \<open>\<open>NewDNSResolver\<close>, line 42: the cache the constructor hands back is kept, its error
  is dropped.\<close>

definition NewDNSResolver :: "int \<Rightarrow> Resolver" where
  "NewDNSResolver cacheSize =
     \<lparr>Timeout = 0, Resolver_dns = None, cache = fst (lru_New cacheSize), OnCacheMiss = False\<rparr>"

definition init_state :: "Resolver \<Rightarrow> state" where
  "init_state r = \<lparr>resolver = r, lookupGroup = \<lparr>group_m = [], calls = []\<rparr>, trace = []\<rparr>"

text \<open>\<open>getCtx\<close>: a deadline of \<open>Timeout\<close> when it is positive, else the plain background
  context.\<close>

definition getCtx :: "Resolver \<Rightarrow> int option" where
  "getCtx r = (if 0 < Timeout r then Some (Timeout r) else None)"

text \<open>The closure \<open>lookupFunc\<close> returns: the resolver it captured and the subject
  \<open>key[1:]\<close>.\<close>

datatype work = HostWork DNSResolver string | AddrWork DNSResolver string

definition lookupFunc :: "Resolver \<Rightarrow> string \<Rightarrow> work outcome" where
  "lookupFunc r key =
     (if length key = 0 then Panics (PanicMsg ''lookupFunc with empty key'')
      else
        (let rs = (case Resolver_dns r of None \<Rightarrow> DefaultResolver | Some x \<Rightarrow> x)
         in if hd key = CHR ''h'' then Returns (HostWork rs (tl key))
            else if hd key = CHR ''r'' then Returns (AddrWork rs (tl key))
            else Panics (PanicMsg (''lookupFunc invalid key type: '' @ key))))"

text \<open>Running the closure: the call of the underlying resolver it makes.\<close>

fun run_work :: "Resolver \<Rightarrow> work \<Rightarrow> event" where
  "run_work r (HostWork rs subject) = LookupHostCall rs (getCtx r) subject"
| "run_work r (AddrWork rs subject) = LookupAddrCall rs (getCtx r) subject"

definition load :: "Resolver \<Rightarrow> string \<Rightarrow> ((string list \<times> bool \<times> error option) \<times> Resolver) outcome" where
  "load r key =
     (case cache r of
        None \<Rightarrow> Panics NilDereference
      | Some c \<Rightarrow>
          (case lru_Get c key of
             (None, c') \<Rightarrow> Returns (([], False, None), r\<lparr>cache := Some c'\<rparr>)
           | (Some entry, c') \<Rightarrow> Returns ((rrs entry, True, err entry), r\<lparr>cache := Some c'\<rparr>)))"

definition storeLocked :: "Resolver \<Rightarrow> string \<Rightarrow> string list \<Rightarrow> error option \<Rightarrow> Resolver outcome" where
  "storeLocked r key rs e =
     (case cache r of
        None \<Rightarrow> Panics NilDereference
      | Some c \<Rightarrow>
          (case lru_Get c key of
             (Some entry, c') \<Rightarrow> Returns (r\<lparr>cache := Some (assign_entry c' key \<lparr>rrs = rs, err = e\<rparr>)\<rparr>)
           | (None, c') \<Rightarrow> Returns (r\<lparr>cache := Some (lru_Add c' key \<lparr>rrs = rs, err = e\<rparr>)\<rparr>)))"

subsection \<open>\<open>update\<close>\<close>

text \<open>
  A caller's context, by what its \<open>Done\<close> channel does: \<open>context.Background()\<close> is never
  done; \<open>DoneCtx e\<close> is a context that is done while the caller waits, with \<open>ctx.Err() = e\<close>.
  The \<open>select\<close> of \<open>update\<close> takes one of two cases.
\<close>

datatype ctx = Background | DoneCtx error

datatype selected = CtxDone error | Received Result

text \<open>The first half of \<open>update\<close>, line 84: \<open>lookupFunc\<close> is evaluated first (and may
  panic), then \<open>DoChan\<close> registers the caller; a call that is started runs its work.\<close>

definition update_begin :: "string \<Rightarrow> state \<Rightarrow> (nat \<times> state) outcome" where
  "update_begin key st =
     (case lookupFunc (resolver st) key of
        Panics p \<Rightarrow> Panics p
      | Blocks \<Rightarrow> Blocks
      | Returns fn \<Rightarrow>
          (case DoChan (lookupGroup st) key of
             ((c, started), g') \<Rightarrow>
               Returns (c, st\<lparr>lookupGroup := g',
                              trace := trace st @ (if started then [run_work (resolver st) fn] else [])\<rparr>)))"

text \<open>Lines 104 to 110: the flight's failure, its results only when there is no failure,
  written to the store and returned.\<close>

definition store_result :: "string \<Rightarrow> Result \<Rightarrow> state \<Rightarrow> ((string list \<times> error option) \<times> state) outcome" where
  "store_result key res st =
     (let e = Err res;
          rs = (if e = None then Val res else [])
      in case storeLocked (resolver st) key rs e of
           Panics p \<Rightarrow> Panics p
         | Blocks \<Rightarrow> Blocks
         | Returns r' \<Rightarrow> Returns ((rs, e), st\<lparr>resolver := r'\<rparr>))"

text \<open>The second half of \<open>update\<close>, lines 85 to 112: the body of the \<open>select\<close> case that
  was taken.\<close>

definition update_end :: "string \<Rightarrow> selected \<Rightarrow> state \<Rightarrow> ((string list \<times> error option) \<times> state) outcome" where
  "update_end key sel st =
     (case sel of
        CtxDone e \<Rightarrow>
          Returns (([], Some e),
                   if e = DeadlineExceeded then st\<lparr>lookupGroup := Forget (lookupGroup st) key\<rparr> else st)
      | Received res \<Rightarrow>
          (if Shared res then
             (case load (resolver st) key of
                Panics p \<Rightarrow> Panics p
              | Blocks \<Rightarrow> Blocks
              | Returns ((rs, found, e), r') \<Rightarrow>
                  if found then Returns ((rs, e), st\<lparr>resolver := r'\<rparr>)
                  else store_result key res (st\<lparr>resolver := r'\<rparr>))
           else store_result key res st))"

text \<open>
  \<open>update\<close> run without another caller in between. What happens while the caller waits is
  given: \<open>flight\<close> is what the work of the call returns, or \<open>None\<close> when it has not returned
  by the time the caller stops waiting; \<open>rc\<close> says which case the \<open>select\<close> takes when both
  the context is done and the result has arrived. A background context with a flight that
  never returns blocks.
\<close>

datatype race = CtxFirst | FlightFirst

definition update :: "ctx \<Rightarrow> string \<Rightarrow> (string list \<times> error option) option \<Rightarrow> race \<Rightarrow> state
    \<Rightarrow> ((string list \<times> error option) \<times> state) outcome" where
  "update cx key flight rc st =
     (case update_begin key st of
        Panics p \<Rightarrow> Panics p
      | Blocks \<Rightarrow> Blocks
      | Returns (c, st1) \<Rightarrow>
          (case flight of
             None \<Rightarrow>
               (case cx of
                  Background \<Rightarrow> Blocks
                | DoneCtx e \<Rightarrow> update_end key (CtxDone e) st1)
           | Some (v, e') \<Rightarrow>
               (case doCall (lookupGroup st1) c key v e' of
                  (res, g2) \<Rightarrow>
                    (case cx of
                       Background \<Rightarrow> update_end key (Received res) (st1\<lparr>lookupGroup := g2\<rparr>)
                     | DoneCtx e \<Rightarrow>
                         (case rc of
                            CtxFirst \<Rightarrow> update_end key (CtxDone e) (st1\<lparr>lookupGroup := g2\<rparr>)
                          | FlightFirst \<Rightarrow> update_end key (Received res) (st1\<lparr>lookupGroup := g2\<rparr>))))))"

subsection \<open>\<open>lookup\<close>, \<open>LookupHost\<close>, \<open>LookupAddr\<close>, \<open>Refresh\<close>\<close>

definition lookup :: "ctx \<Rightarrow> string \<Rightarrow> (string list \<times> error option) option \<Rightarrow> race \<Rightarrow> state
    \<Rightarrow> ((string list \<times> error option) \<times> state) outcome" where
  "lookup cx key flight rc st =
     (case load (resolver st) key of
        Panics p \<Rightarrow> Panics p
      | Blocks \<Rightarrow> Blocks
      | Returns ((rs, found, e), r') \<Rightarrow>
          if \<not> found then
            update cx key flight rc
              (st\<lparr>resolver := r',
                  trace := trace st @ (if OnCacheMiss r' then [OnCacheMissCall] else [])\<rparr>)
          else Returns ((rs, e), st\<lparr>resolver := r'\<rparr>))"

text \<open>The keys of the two operations: \<open>"r"+addr\<close> (line 51) and \<open>"h"+host\<close> (line 57).\<close>

definition addr_key :: "string \<Rightarrow> string" where
  "addr_key addr = ''r'' @ addr"

definition host_key :: "string \<Rightarrow> string" where
  "host_key host = ''h'' @ host"

definition LookupAddr :: "ctx \<Rightarrow> string \<Rightarrow> (string list \<times> error option) option \<Rightarrow> race \<Rightarrow> state
    \<Rightarrow> ((string list \<times> error option) \<times> state) outcome" where
  "LookupAddr cx addr flight rc st = lookup cx (addr_key addr) flight rc st"

definition LookupHost :: "ctx \<Rightarrow> string \<Rightarrow> (string list \<times> error option) option \<Rightarrow> race \<Rightarrow> state
    \<Rightarrow> ((string list \<times> error option) \<times> state) outcome" where
  "LookupHost cx host flight rc st = lookup cx (host_key host) flight rc st"

text \<open>\<open>Refresh\<close>: the loop over the keys \<open>Keys()\<close> returned, each updated under
  \<open>context.Background()\<close>, the results dropped. \<open>ans key\<close> is what the flight of that key
  returns.\<close>

fun Refresh_loop :: "string list \<Rightarrow> (string \<Rightarrow> (string list \<times> error option) option) \<Rightarrow> state \<Rightarrow> state outcome" where
  "Refresh_loop [] ans st = Returns st"
| "Refresh_loop (key # keys) ans st =
     (case update Background key (ans key) FlightFirst st of
        Panics p \<Rightarrow> Panics p
      | Blocks \<Rightarrow> Blocks
      | Returns (out, st') \<Rightarrow> Refresh_loop keys ans st')"

definition Refresh :: "(string \<Rightarrow> (string list \<times> error option) option) \<Rightarrow> state \<Rightarrow> state outcome" where
  "Refresh ans st =
     (case cache (resolver st) of
        None \<Rightarrow> Panics NilDereference
      | Some c \<Rightarrow> Refresh_loop (lru_Keys c) ans st)"

section \<open>Notions the statements use\<close>

text \<open>A key \<open>lookupFunc\<close> accepts: not empty, and its first byte is \<open>h\<close> or \<open>r\<close>.\<close>

definition valid_key :: "string \<Rightarrow> bool" where
  "valid_key key = (key \<noteq> [] \<and> (hd key = CHR ''h'' \<or> hd key = CHR ''r''))"

text \<open>The store as its constructor leaves it and every operation keeps it: a positive
  capacity, no key twice, not more entries than the capacity.\<close>

definition lru_wf :: "lru \<Rightarrow> bool" where
  "lru_wf c = (0 < lru_size c \<and> distinct (map fst (evictList c))
               \<and> int (length (evictList c)) \<le> lru_size c)"

text \<open>The store after \<open>storeLocked\<close> has written \<open>v\<close> under \<open>key\<close>.\<close>

definition stored :: "lru \<Rightarrow> string \<Rightarrow> cacheEntry \<Rightarrow> lru" where
  "stored c key v =
     (case lru_Get c key of
        (Some entry, c') \<Rightarrow> assign_entry c' key v
      | (None, c') \<Rightarrow> lru_Add c' key v)"

text \<open>What \<open>update\<close> returns and stores for a flight's result (lines 104 to 107): the
  failure, and the results only when the failure is nil.\<close>

definition payload :: "Result \<Rightarrow> string list \<times> error option" where
  "payload res = (if Err res = None then Val res else [], Err res)"

definition payload_entry :: "Result \<Rightarrow> cacheEntry" where
  "payload_entry res = \<lparr>rrs = fst (payload res), err = snd (payload res)\<rparr>"

text \<open>The call of the underlying resolver that the work of a valid key makes.\<close>

definition key_event :: "Resolver \<Rightarrow> string \<Rightarrow> event" where
  "key_event r key =
     (let rs = (case Resolver_dns r of None \<Rightarrow> DefaultResolver | Some x \<Rightarrow> x)
      in if hd key = CHR ''h'' then LookupHostCall rs (getCtx r) (tl key)
         else LookupAddrCall rs (getCtx r) (tl key))"

text \<open>The state after line 84 for a valid key, and the result and state once the flight
  the caller waits on has returned \<open>(v, e)\<close>.\<close>

definition begun :: "string \<Rightarrow> state \<Rightarrow> state" where
  "begun key st =
     st\<lparr>lookupGroup := snd (DoChan (lookupGroup st) key),
        trace := trace st @ (if snd (fst (DoChan (lookupGroup st) key))
                             then [key_event (resolver st) key] else [])\<rparr>"

definition landed :: "string \<Rightarrow> string list \<Rightarrow> error option \<Rightarrow> state \<Rightarrow> Result \<times> state" where
  "landed key v e st =
     (let c = fst (fst (DoChan (lookupGroup st) key));
          d = doCall (lookupGroup (begun key st)) c key v e
      in (fst d, (begun key st)\<lparr>lookupGroup := snd d\<rparr>))"

text \<open>The store after a step: same capacity, still well formed, no key but the one of the
  call added.\<close>

definition store_step :: "string \<Rightarrow> lru \<Rightarrow> lru \<Rightarrow> bool" where
  "store_step key c c' =
     (lru_size c' = lru_size c \<and> (lru_wf c \<longrightarrow> lru_wf c')
      \<and> set (lru_Keys c') \<subseteq> insert key (set (lru_Keys c))
      \<and> (map_of (evictList c) key \<noteq> None \<longrightarrow> set (lru_Keys c') = set (lru_Keys c)))"

text \<open>A sequence of lookups on one resolver: each request is a call of \<open>LookupHost\<close>
  (\<open>Forward\<close>) or \<open>LookupAddr\<close> (\<open>Reverse\<close>) with its context and what happens while it
  waits; a call that panics or blocks ends the run.\<close>

datatype request =
    Forward ctx string "(string list \<times> error option) option" race
  | Reverse ctx string "(string list \<times> error option) option" race

fun run :: "request list \<Rightarrow> state \<Rightarrow> state outcome" where
  "run [] st = Returns st"
| "run (Forward cx host flight rc # reqs) st =
     (case LookupHost cx host flight rc st of
        Panics p \<Rightarrow> Panics p
      | Blocks \<Rightarrow> Blocks
      | Returns (out, st') \<Rightarrow> run reqs st')"
| "run (Reverse cx addr flight rc # reqs) st =
     (case LookupAddr cx addr flight rc st of
        Panics p \<Rightarrow> Panics p
      | Blocks \<Rightarrow> Blocks
      | Returns (out, st') \<Rightarrow> run reqs st')"


text \<open>The equations that evaluate the model at a concrete input.\<close>

lemmas model_defs = lookup_def load_def init_state_def NewDNSResolver_def lru_New_def lru_Get_def
    update_def update_begin_def lookupFunc_def DoChan_def doCall_def call_dups_def update_end_def
    store_result_def storeLocked_def lru_Add_def Let_def getCtx_def Forget_def assign_entry_def
    LookupHost_def LookupAddr_def host_key_def addr_key_def lru_Keys_def Refresh_def

section \<open>The cache keys\<close>



text \<open>
  C8. The key encoding keeps the two operations apart: the key of a forward lookup is never
  the key of a reverse lookup, two forward (or two reverse) lookups have the same key
  exactly when their subjects are equal, and \<open>lookupFunc\<close> reads the kind and the subject
  back from the key.
\<close>

theorem cache_key_injective:
  "host_key h \<noteq> addr_key a
   \<and> (host_key h1 = host_key h2 \<longleftrightarrow> h1 = h2)
   \<and> (addr_key a1 = addr_key a2 \<longleftrightarrow> a1 = a2)
   \<and> LookupHost cx h flight rc st = lookup cx (host_key h) flight rc st
   \<and> LookupAddr cx a flight rc st = lookup cx (addr_key a) flight rc st
   \<and> lookupFunc r (host_key h) \<noteq> lookupFunc r (addr_key a)"
  by (simp add: host_key_def addr_key_def LookupHost_def LookupAddr_def lookupFunc_def)

section \<open>The store: association lists\<close>

lemma map_of_filter_other:
  "k' \<noteq> k \<Longrightarrow> map_of (filter (\<lambda>p. fst p \<noteq> k) xs) k' = map_of xs k'"
  by (induction xs) auto

lemma map_of_filter_same: "map_of (filter (\<lambda>p. fst p \<noteq> k) xs) k = None"
  by (induction xs) auto

lemma map_of_filter_upd:
  "map_of xs k = Some v \<Longrightarrow> (map_of (filter (\<lambda>p. fst p \<noteq> k) xs))(k \<mapsto> v) = map_of xs"
  by (rule ext) (simp add: map_of_filter_other)

lemma filter_absent: "map_of xs k = None \<Longrightarrow> filter (\<lambda>p. fst p \<noteq> k) xs = xs"
  by (induction xs) (auto split: if_splits)

lemma length_filter_present:
  "distinct (map fst xs) \<Longrightarrow> map_of xs k = Some v \<Longrightarrow>
   Suc (length (filter (\<lambda>p. fst p \<noteq> k) xs)) = length xs"
proof (induction xs)
  case Nil
  then show ?case by simp
next
  case (Cons a xs)
  show ?case
  proof (cases "fst a = k")
    case True
    with Cons.prems have "k \<notin> fst ` set xs" by auto
    then have "map_of xs k = None" by (simp add: map_of_eq_None_iff)
    then show ?thesis using True by (simp add: filter_absent)
  next
    case False
    then show ?thesis using Cons by auto
  qed
qed

lemma distinct_filter_keys:
  "distinct (map fst xs) \<Longrightarrow> distinct (map fst (filter (\<lambda>p. fst p \<noteq> k) xs))"
  by (simp add: distinct_map_filter)

lemma lru_Get_miss: "map_of (evictList c) k = None \<Longrightarrow> lru_Get c k = (None, c)"
  by (simp add: lru_Get_def)

lemma lru_Get_hit:
  "map_of (evictList c) k = Some v \<Longrightarrow>
   lru_Get c k = (Some v, c\<lparr>evictList := (k, v) # filter (\<lambda>p. fst p \<noteq> k) (evictList c)\<rparr>)"
  by (simp add: lru_Get_def)

lemma lru_wf_Get: "lru_wf c \<Longrightarrow> lru_wf (snd (lru_Get c k))"
proof (cases "map_of (evictList c) k")
  case None
  assume "lru_wf c"
  then show ?thesis using None by (simp add: lru_Get_miss)
next
  case (Some v)
  assume wf: "lru_wf c"
  then have "Suc (length (filter (\<lambda>p. fst p \<noteq> k) (evictList c))) = length (evictList c)"
    using Some by (simp add: lru_wf_def length_filter_present)
  then show ?thesis using wf Some
    by (auto simp: lru_Get_hit lru_wf_def distinct_filter_keys)
qed

lemma keys_assign_entry: "map fst (evictList (assign_entry c k v)) = map fst (evictList c)"
  unfolding assign_entry_def by (induction "evictList c") auto

lemma lru_wf_assign: "lru_wf c \<Longrightarrow> lru_wf (assign_entry c k v)"
proof -
  assume wf: "lru_wf c"
  have "length (evictList (assign_entry c k v)) = length (evictList c)"
    by (simp add: assign_entry_def)
  moreover have "lru_size (assign_entry c k v) = lru_size c"
    by (simp add: assign_entry_def)
  ultimately show ?thesis using wf keys_assign_entry [of c k v]
    unfolding lru_wf_def by simp
qed

lemma lru_wf_Add: "lru_wf c \<Longrightarrow> lru_wf (lru_Add c k v)"
proof (cases "map_of (evictList c) k")
  case None
  assume wf: "lru_wf c"
  have nin: "k \<notin> fst ` set (evictList c)" using None by (simp add: map_of_eq_None_iff)
  have "distinct (map fst ((k, v) # evictList c))"
    using wf nin by (simp add: lru_wf_def)
  then have "distinct (butlast (map fst ((k, v) # evictList c)))"
    by (rule distinct_butlast)
  then have d: "distinct (map fst (butlast ((k, v) # evictList c)))"
    by (simp only: map_butlast)
  show ?thesis using wf None nin d
    by (auto simp: lru_Add_def lru_wf_def Let_def)
next
  case (Some old)
  assume wf: "lru_wf c"
  then have "Suc (length (filter (\<lambda>p. fst p \<noteq> k) (evictList c))) = length (evictList c)"
    using Some by (simp add: lru_wf_def length_filter_present)
  then show ?thesis using wf Some
    by (auto simp: lru_Add_def lru_wf_def distinct_filter_keys)
qed

section \<open>The store: keys and order\<close>

lemma keys_filter:
  "map fst (filter (\<lambda>p. fst p \<noteq> k) xs) = filter (\<lambda>x. x \<noteq> k) (map fst xs)"
  by (induction xs) auto

lemma rev_butlast_tl: "rev (butlast xs) = tl (rev xs)"
  by (induction xs rule: rev_induct) auto

lemma lru_size_Get: "lru_size (snd (lru_Get c k)) = lru_size c"
  by (simp add: lru_Get_def split: option.splits)

lemma map_of_Get: "map_of (evictList (snd (lru_Get c k))) = map_of (evictList c)"
  by (cases "map_of (evictList c) k") (simp_all add: lru_Get_hit lru_Get_miss map_of_filter_upd)

lemma lru_Keys_Get_hit:
  "map_of (evictList c) k = Some v \<Longrightarrow>
   lru_Keys (snd (lru_Get c k)) = filter (\<lambda>x. x \<noteq> k) (lru_Keys c) @ [k]"
  by (simp add: lru_Get_hit lru_Keys_def keys_filter rev_filter)

lemma mem_keys_iff: "k \<in> set (lru_Keys c) \<longleftrightarrow> map_of (evictList c) k \<noteq> None"
  by (simp add: lru_Keys_def map_of_eq_None_iff)

lemma set_Keys_Get: "set (lru_Keys (snd (lru_Get c k))) = set (lru_Keys c)"
proof (cases "map_of (evictList c) k")
  case None
  then show ?thesis by (simp add: lru_Get_miss)
next
  case (Some v)
  then have "k \<in> set (lru_Keys c)" by (simp add: mem_keys_iff)
  then show ?thesis using Some by (auto simp: lru_Keys_Get_hit)
qed

lemma lru_Keys_assign: "lru_Keys (assign_entry c k v) = lru_Keys c"
  by (simp add: lru_Keys_def keys_assign_entry)

lemma lru_size_assign: "lru_size (assign_entry c k v) = lru_size c"
  by (simp add: assign_entry_def)

lemma map_of_map_assign:
  "map_of xs k \<noteq> None \<Longrightarrow> map_of (map (\<lambda>p. if fst p = k then (k, v) else p) xs) k = Some v"
  by (induction xs) auto

lemma map_of_assign_same:
  "map_of (evictList c) k \<noteq> None \<Longrightarrow> map_of (evictList (assign_entry c k v)) k = Some v"
  by (simp add: assign_entry_def map_of_map_assign)



lemma lru_size_Add: "lru_size (lru_Add c k v) = lru_size c"
  by (simp add: lru_Add_def Let_def split: option.splits)

lemma map_of_Add_same:
  "0 < lru_size c \<Longrightarrow> map_of (evictList (lru_Add c k v)) k = Some v"
proof (cases "map_of (evictList c) k")
  case None
  assume pos: "0 < lru_size c"
  show ?thesis
  proof (cases "evictList c")
    case Nil
    then show ?thesis using None pos by (simp add: lru_Add_def Let_def)
  next
    case (Cons a xs)
    then show ?thesis using None by (simp add: lru_Add_def Let_def)
  qed
next
  case (Some old)
  then show ?thesis by (simp add: lru_Add_def)
qed

lemma lru_Keys_Add_room:
  "map_of (evictList c) k = None \<Longrightarrow> int (length (evictList c)) < lru_size c \<Longrightarrow>
   lru_Keys (lru_Add c k v) = lru_Keys c @ [k]"
  by (simp add: lru_Add_def Let_def lru_Keys_def)

lemma lru_Keys_Add_full:
  "map_of (evictList c) k = None \<Longrightarrow> lru_size c \<le> int (length (evictList c)) \<Longrightarrow>
   lru_Keys (lru_Add c k v) = tl (lru_Keys c @ [k])"
proof -
  assume a: "map_of (evictList c) k = None" "lru_size c \<le> int (length (evictList c))"
  have "lru_Keys (lru_Add c k v) = rev (map fst (butlast ((k, v) # evictList c)))"
    using a by (simp add: lru_Add_def Let_def lru_Keys_def)
  also have "\<dots> = rev (butlast (map fst ((k, v) # evictList c)))"
    by (simp only: map_butlast)
  also have "\<dots> = tl (rev (map fst ((k, v) # evictList c)))"
    by (rule rev_butlast_tl)
  finally show ?thesis by (simp add: lru_Keys_def)
qed

lemma set_Keys_Add: "set (lru_Keys (lru_Add c k v)) \<subseteq> insert k (set (lru_Keys c))"
proof (cases "map_of (evictList c) k")
  case None
  show ?thesis
  proof (cases "int (length (evictList c)) < lru_size c")
    case True
    then show ?thesis using None by (auto simp: lru_Keys_Add_room)
  next
    case False
    then have "lru_Keys (lru_Add c k v) = tl (lru_Keys c @ [k])"
      using None by (simp add: lru_Keys_Add_full)
    moreover have "set (tl (lru_Keys c @ [k])) \<subseteq> set (lru_Keys c @ [k])"
      by (cases "lru_Keys c @ [k]") auto
    ultimately show ?thesis by auto
  qed
next
  case (Some old)
  then show ?thesis by (auto simp: lru_Add_def lru_Keys_def)
qed

section \<open>\<open>load\<close>, \<open>storeLocked\<close> and the halves of \<open>update\<close>\<close>

lemma cache_same: "cache r = Some c \<Longrightarrow> r\<lparr>cache := Some c\<rparr> = r"
  by (cases r) simp

lemma load_nil: "cache r = None \<Longrightarrow> load r key = Panics NilDereference"
  by (simp add: load_def)

lemma load_hit:
  "cache r = Some c \<Longrightarrow> map_of (evictList c) key = Some entry \<Longrightarrow>
   load r key = Returns ((rrs entry, True, err entry), r\<lparr>cache := Some (snd (lru_Get c key))\<rparr>)"
  by (simp add: load_def lru_Get_hit)

lemma load_miss:
  "cache r = Some c \<Longrightarrow> map_of (evictList c) key = None \<Longrightarrow>
   load r key = Returns (([], False, None), r)"
  by (simp add: load_def lru_Get_miss cache_same)

lemma storeLocked_nil: "cache r = None \<Longrightarrow> storeLocked r key rs e = Panics NilDereference"
  by (simp add: storeLocked_def)

lemma storeLocked_stored:
  "cache r = Some c \<Longrightarrow>
   storeLocked r key rs e = Returns (r\<lparr>cache := Some (stored c key \<lparr>rrs = rs, err = e\<rparr>)\<rparr>)"
  by (simp add: storeLocked_def stored_def split: prod.splits option.splits)

lemma stored_present:
  "map_of (evictList c) key = Some old \<Longrightarrow> stored c key v = assign_entry (snd (lru_Get c key)) key v"
  by (simp add: stored_def lru_Get_hit)

lemma stored_absent:
  "map_of (evictList c) key = None \<Longrightarrow> stored c key v = lru_Add c key v"
  by (simp add: stored_def lru_Get_miss)

lemma lru_size_stored: "lru_size (stored c key v) = lru_size c"
  by (cases "map_of (evictList c) key")
     (simp_all add: stored_present stored_absent lru_size_assign lru_size_Add lru_size_Get)

lemma lru_wf_stored: "lru_wf c \<Longrightarrow> lru_wf (stored c key v)"
  by (cases "map_of (evictList c) key")
     (simp_all add: stored_present stored_absent lru_wf_assign lru_wf_Add lru_wf_Get)

lemma map_of_stored_same:
  "0 < lru_size c \<Longrightarrow> map_of (evictList (stored c key v)) key = Some v"
proof (cases "map_of (evictList c) key")
  case None
  assume "0 < lru_size c"
  then show ?thesis using None by (simp add: stored_absent map_of_Add_same)
next
  case (Some old)
  then have "map_of (evictList (snd (lru_Get c key))) key \<noteq> None"
    by (simp add: map_of_Get)
  then show ?thesis using Some by (simp add: stored_present map_of_assign_same)
qed

lemma lru_Keys_stored_present:
  "map_of (evictList c) key = Some old \<Longrightarrow>
   lru_Keys (stored c key v) = filter (\<lambda>x. x \<noteq> key) (lru_Keys c) @ [key]"
  by (simp add: stored_present lru_Keys_assign lru_Keys_Get_hit)


lemma set_Keys_stored: "set (lru_Keys (stored c key v)) \<subseteq> insert key (set (lru_Keys c))"
proof (cases "map_of (evictList c) key")
  case None
  then show ?thesis using set_Keys_Add [of c key v] by (simp add: stored_absent)
next
  case (Some old)
  then show ?thesis by (auto simp: lru_Keys_stored_present)
qed

lemma set_Keys_stored_present:
  "map_of (evictList c) key = Some old \<Longrightarrow> set (lru_Keys (stored c key v)) = set (lru_Keys c)"
  by (auto simp: lru_Keys_stored_present mem_keys_iff)

lemma store_result_nil:
  "cache (resolver st) = None \<Longrightarrow> store_result key res st = Panics NilDereference"
  by (simp add: store_result_def Let_def storeLocked_nil)

lemma store_result_stored:
  "cache (resolver st) = Some c \<Longrightarrow>
   store_result key res st =
     Returns (payload res, st\<lparr>resolver := (resolver st)\<lparr>cache := Some (stored c key (payload_entry res))\<rparr>\<rparr>)"
  by (simp add: store_result_def Let_def storeLocked_stored payload_def payload_entry_def)

lemma update_end_CtxDone:
  "update_end key (CtxDone e) st =
     Returns (([], Some e),
              if e = DeadlineExceeded then st\<lparr>lookupGroup := Forget (lookupGroup st) key\<rparr> else st)"
  by (simp add: update_end_def)

lemma update_end_nil:
  "cache (resolver st) = None \<Longrightarrow> update_end key (Received res) st = Panics NilDereference"
  by (simp add: update_end_def load_nil store_result_nil)

lemma update_end_shared_found:
  "cache (resolver st) = Some c \<Longrightarrow> Shared res \<Longrightarrow> map_of (evictList c) key = Some entry \<Longrightarrow>
   update_end key (Received res) st =
     Returns ((rrs entry, err entry),
              st\<lparr>resolver := (resolver st)\<lparr>cache := Some (snd (lru_Get c key))\<rparr>\<rparr>)"
  by (simp add: update_end_def load_hit)

lemma update_end_store:
  "cache (resolver st) = Some c \<Longrightarrow> \<not> Shared res \<or> map_of (evictList c) key = None \<Longrightarrow>
   update_end key (Received res) st =
     Returns (payload res,
              st\<lparr>resolver := (resolver st)\<lparr>cache := Some (stored c key (payload_entry res))\<rparr>\<rparr>)"
  by (auto simp: update_end_def load_miss store_result_stored)

lemma lookupFunc_invalid: "\<not> valid_key key \<Longrightarrow> \<exists>p. lookupFunc r key = Panics p"
  by (auto simp: lookupFunc_def valid_key_def Let_def)

lemma lookupFunc_key_event:
  "valid_key key \<Longrightarrow> \<exists>fn. lookupFunc r key = Returns fn \<and> run_work r fn = key_event r key"
  by (auto simp: lookupFunc_def valid_key_def Let_def key_event_def)


lemma DoChan_marker: "map_of (group_m (snd (DoChan g key))) key = Some (fst (fst (DoChan g key)))"
  by (simp add: DoChan_def Let_def split: option.splits)

lemma DoChan_other:
  "k \<noteq> key \<Longrightarrow> map_of (group_m (snd (DoChan g key))) k = map_of (group_m g) k"
  by (simp add: DoChan_def Let_def split: option.splits)


lemma DoChan_attach:
  "map_of (group_m g) key = Some c \<Longrightarrow>
   DoChan g key = ((c, False), g\<lparr>calls := (calls g)[c := Suc (call_dups g c)]\<rparr>)"
  by (simp add: DoChan_def)

lemma Forget_same: "map_of (group_m (Forget g key)) key = None"
  by (simp add: Forget_def map_of_filter_same)

lemma Forget_other: "k \<noteq> key \<Longrightarrow> map_of (group_m (Forget g key)) k = map_of (group_m g) k"
  by (simp add: Forget_def map_of_filter_other)



lemma update_begin_valid:
  "valid_key key \<Longrightarrow>
   update_begin key st =
     Returns (fst (fst (DoChan (lookupGroup st) key)),
              st\<lparr>lookupGroup := snd (DoChan (lookupGroup st) key),
                 trace := trace st @ (if snd (fst (DoChan (lookupGroup st) key))
                                      then [key_event (resolver st) key] else [])\<rparr>)"
proof -
  assume "valid_key key"
  then obtain fn where "lookupFunc (resolver st) key = Returns fn"
    "run_work (resolver st) fn = key_event (resolver st) key"
    using lookupFunc_key_event by blast
  then show ?thesis
    by (simp add: update_begin_def split: prod.splits)
qed

lemma update_begin_invalid: "\<not> valid_key key \<Longrightarrow> \<exists>p. update_begin key st = Panics p"
proof -
  assume "\<not> valid_key key"
  then obtain p where "lookupFunc (resolver st) key = Panics p"
    using lookupFunc_invalid by blast
  then show ?thesis by (simp add: update_begin_def)
qed

lemma update_pending:
  "valid_key key \<Longrightarrow> update (DoneCtx e) key None rc st = update_end key (CtxDone e) (begun key st)"
  by (simp add: update_def update_begin_valid begun_def)

lemma update_blocks: "valid_key key \<Longrightarrow> update Background key None rc st = Blocks"
  by (simp add: update_def update_begin_valid)

lemma update_ctx_first:
  "valid_key key \<Longrightarrow>
   update (DoneCtx e) key (Some (v, e')) CtxFirst st = update_end key (CtxDone e) (snd (landed key v e' st))"
  by (simp add: update_def update_begin_valid begun_def landed_def Let_def split: prod.splits)

lemma update_received:
  "valid_key key \<Longrightarrow> cx = Background \<or> rc = FlightFirst \<Longrightarrow>
   update cx key (Some (v, e')) rc st =
     update_end key (Received (fst (landed key v e' st))) (snd (landed key v e' st))"
  by (cases cx) (auto simp: update_def update_begin_valid begun_def landed_def Let_def split: prod.splits)

lemma update_invalid: "\<not> valid_key key \<Longrightarrow> \<exists>p. update cx key flight rc st = Panics p"
proof -
  assume "\<not> valid_key key"
  then obtain p where "update_begin key st = Panics p"
    using update_begin_invalid by blast
  then show ?thesis by (simp add: update_def)
qed

lemma resolver_begun: "resolver (begun key st) = resolver st"
  by (simp add: begun_def)

lemma resolver_landed: "resolver (snd (landed key v e st)) = resolver st"
  by (simp add: landed_def Let_def begun_def)

lemma trace_landed: "trace (snd (landed key v e st)) = trace (begun key st)"
  by (simp add: landed_def Let_def)



lemma marker_begun: "map_of (group_m (lookupGroup (begun key st))) key \<noteq> None"
  by (simp add: begun_def DoChan_marker)

lemma marker_begun_other:
  "k \<noteq> key \<Longrightarrow> map_of (group_m (lookupGroup (begun key st))) k = map_of (group_m (lookupGroup st)) k"
  by (simp add: begun_def DoChan_other)



section \<open>\<open>lookup\<close> on a key the store holds\<close>

lemma lookup_nil: "cache (resolver st) = None \<Longrightarrow> lookup cx key flight rc st = Panics NilDereference"
  by (simp add: lookup_def load_nil)

lemma lookup_hit:
  "cache (resolver st) = Some c \<Longrightarrow> map_of (evictList c) key = Some entry \<Longrightarrow>
   lookup cx key flight rc st =
     Returns ((rrs entry, err entry), st\<lparr>resolver := (resolver st)\<lparr>cache := Some (snd (lru_Get c key))\<rparr>\<rparr>)"
  by (simp add: lookup_def load_hit)

lemma lookup_miss:
  "cache (resolver st) = Some c \<Longrightarrow> map_of (evictList c) key = None \<Longrightarrow>
   lookup cx key flight rc st =
     update cx key flight rc
       (st\<lparr>trace := trace st @ (if OnCacheMiss (resolver st) then [OnCacheMissCall] else [])\<rparr>)"
  by (simp add: lookup_def load_miss)

lemma valid_host_key: "valid_key (host_key h)"
  by (simp add: valid_key_def host_key_def)

lemma valid_addr_key: "valid_key (addr_key a)"
  by (simp add: valid_key_def addr_key_def)

lemma update_Returns_valid: "update cx key flight rc st = Returns x \<Longrightarrow> valid_key key"
  using update_invalid [of key cx flight rc st] by (cases "valid_key key") auto

lemma received_stores:
  assumes c: "cache (resolver st) = Some c" and pos: "0 < lru_size c"
    and miss: "map_of (evictList c) key = None"
    and u: "update cx key (Some (v, e)) FlightFirst st = Returns (out, st1)"
  shows "\<exists>c1. cache (resolver st1) = Some c1
          \<and> map_of (evictList c1) key = Some \<lparr>rrs = fst out, err = snd out\<rparr>"
proof -
  have vk: "valid_key key" using u by (rule update_Returns_valid)
  let ?res = "fst (landed key v e st)" and ?s = "snd (landed key v e st)"
  have cs: "cache (resolver ?s) = Some c" using c by (simp add: resolver_landed)
  have "update cx key (Some (v, e)) FlightFirst st = update_end key (Received ?res) ?s"
    using vk by (simp add: update_received)
  also have "\<dots> = Returns (payload ?res,
      ?s\<lparr>resolver := (resolver ?s)\<lparr>cache := Some (stored c key (payload_entry ?res))\<rparr>\<rparr>)"
    using cs miss by (simp add: update_end_store)
  finally have "out = payload ?res"
    and "st1 = ?s\<lparr>resolver := (resolver ?s)\<lparr>cache := Some (stored c key (payload_entry ?res))\<rparr>\<rparr>"
    using u by simp_all
  then show ?thesis using pos
    by (simp add: map_of_stored_same payload_entry_def)
qed

text \<open>
  C1. Once a lookup for a key has completed and stored an outcome, a later lookup for the
  key returns that outcome and changes nothing but the recency order of the store: the
  trace (no call of the underlying resolver, no call of the miss hook) and the flight
  coordinator are those of the state before. First conjunct: a lookup for a key the store
  holds returns the stored pair. Second conjunct: after a lookup that ended by receiving
  its flight's result (or by a hit), the store holds what the lookup returned, and every
  further lookup for the key, whatever its context and whatever the flight would do,
  returns the same pair.
\<close>

theorem cached_lookup_returns_stored:
  "(cache (resolver st) = Some c \<and> map_of (evictList c) key = Some entry \<longrightarrow>
      (\<exists>c'. lookup cx key flight rc st
               = Returns ((rrs entry, err entry), st\<lparr>resolver := (resolver st)\<lparr>cache := Some c'\<rparr>\<rparr>)
            \<and> map_of (evictList c') = map_of (evictList c) \<and> lru_size c' = lru_size c))
   \<and> (cache (resolver st) = Some c \<and> 0 < lru_size c
        \<and> lookup cx key (Some ans) FlightFirst st = Returns (out, st1) \<longrightarrow>
      (\<exists>c1. cache (resolver st1) = Some c1
            \<and> map_of (evictList c1) key = Some \<lparr>rrs = fst out, err = snd out\<rparr>
            \<and> (\<exists>c2. lookup cx2 key flight2 rc2 st1
                       = Returns (out, st1\<lparr>resolver := (resolver st1)\<lparr>cache := Some c2\<rparr>\<rparr>)
                     \<and> map_of (evictList c2) = map_of (evictList c1))))"
proof (intro conjI impI)
  assume a: "cache (resolver st) = Some c \<and> map_of (evictList c) key = Some entry"
  then show "\<exists>c'. lookup cx key flight rc st
               = Returns ((rrs entry, err entry), st\<lparr>resolver := (resolver st)\<lparr>cache := Some c'\<rparr>\<rparr>)
            \<and> map_of (evictList c') = map_of (evictList c) \<and> lru_size c' = lru_size c"
    by (intro exI [of _ "snd (lru_Get c key)"]) (simp add: lookup_hit map_of_Get lru_size_Get)
next
  assume a: "cache (resolver st) = Some c \<and> 0 < lru_size c
        \<and> lookup cx key (Some ans) FlightFirst st = Returns (out, st1)"
  then have c: "cache (resolver st) = Some c" and pos: "0 < lru_size c"
    and l: "lookup cx key (Some ans) FlightFirst st = Returns (out, st1)" by simp_all
  have "\<exists>c1. cache (resolver st1) = Some c1
          \<and> map_of (evictList c1) key = Some \<lparr>rrs = fst out, err = snd out\<rparr>"
  proof (cases "map_of (evictList c) key")
    case None
    obtain v e where ans: "ans = (v, e)" by (cases ans)
    let ?st = "st\<lparr>trace := trace st @ (if OnCacheMiss (resolver st) then [OnCacheMissCall] else [])\<rparr>"
    have "update cx key (Some (v, e)) FlightFirst ?st = Returns (out, st1)"
      using l c None ans by (simp add: lookup_miss)
    moreover have "cache (resolver ?st) = Some c" using c by simp
    ultimately show ?thesis using pos None by (rule received_stores [rotated 3])
  next
    case (Some entry)
    then have "out = (rrs entry, err entry)"
      and "st1 = st\<lparr>resolver := (resolver st)\<lparr>cache := Some (snd (lru_Get c key))\<rparr>\<rparr>"
      using l c by (simp_all add: lookup_hit)
    then show ?thesis using Some by (simp add: map_of_Get)
  qed
  then obtain c1 where c1: "cache (resolver st1) = Some c1"
    "map_of (evictList c1) key = Some \<lparr>rrs = fst out, err = snd out\<rparr>" by blast
  then have "lookup cx2 key flight2 rc2 st1
       = Returns (out, st1\<lparr>resolver := (resolver st1)\<lparr>cache := Some (snd (lru_Get c1 key))\<rparr>\<rparr>)"
    by (simp add: lookup_hit)
  then show "\<exists>c1. cache (resolver st1) = Some c1
            \<and> map_of (evictList c1) key = Some \<lparr>rrs = fst out, err = snd out\<rparr>
            \<and> (\<exists>c2. lookup cx2 key flight2 rc2 st1
                       = Returns (out, st1\<lparr>resolver := (resolver st1)\<lparr>cache := Some c2\<rparr>\<rparr>)
                     \<and> map_of (evictList c2) = map_of (evictList c1))"
    using c1 map_of_Get [of c1 key] by blast
qed

theorem cached_lookup_returns_stored_witness:
  "lookup Background ''ha'' (Some ([''192.0.2.1''], None)) FlightFirst (init_state (NewDNSResolver 2))
     = Returns (([''192.0.2.1''], None),
         \<lparr>resolver = \<lparr>Timeout = 0, Resolver_dns = None,
            cache = Some \<lparr>lru_size = 2, evictList = [(''ha'', \<lparr>rrs = [''192.0.2.1''], err = None\<rparr>)]\<rparr>,
            OnCacheMiss = False\<rparr>,
          lookupGroup = \<lparr>group_m = [], calls = [0]\<rparr>,
          trace = [LookupHostCall DefaultResolver None ''a'']\<rparr>)
   \<and> (\<exists>c2. lookup (DoneCtx Canceled) ''ha'' None CtxFirst
               \<lparr>resolver = \<lparr>Timeout = 0, Resolver_dns = None,
                  cache = Some \<lparr>lru_size = 2, evictList = [(''ha'', \<lparr>rrs = [''192.0.2.1''], err = None\<rparr>)]\<rparr>,
                  OnCacheMiss = False\<rparr>,
                lookupGroup = \<lparr>group_m = [], calls = [0]\<rparr>,
                trace = [LookupHostCall DefaultResolver None ''a'']\<rparr>
             = Returns (([''192.0.2.1''], None),
                 \<lparr>resolver = \<lparr>Timeout = 0, Resolver_dns = None, cache = Some c2, OnCacheMiss = False\<rparr>,
                  lookupGroup = \<lparr>group_m = [], calls = [0]\<rparr>,
                  trace = [LookupHostCall DefaultResolver None ''a'']\<rparr>))
   \<and> (\<exists>c'. lookup Background ''r192.0.2.7'' (Some ([''a.example.''], None)) FlightFirst
               \<lparr>resolver = \<lparr>Timeout = 0, Resolver_dns = None,
                  cache = Some \<lparr>lru_size = 2,
                    evictList = [(''r192.0.2.7'', \<lparr>rrs = [], err = Some (ResolveError ''no such host'')\<rparr>)]\<rparr>,
                  OnCacheMiss = True\<rparr>,
                lookupGroup = \<lparr>group_m = [], calls = [0]\<rparr>,
                trace = [OnCacheMissCall, LookupAddrCall DefaultResolver None ''192.0.2.7'']\<rparr>
             = Returns (([], Some (ResolveError ''no such host'')),
                 \<lparr>resolver = \<lparr>Timeout = 0, Resolver_dns = None, cache = Some c', OnCacheMiss = True\<rparr>,
                  lookupGroup = \<lparr>group_m = [], calls = [0]\<rparr>,
                  trace = [OnCacheMissCall, LookupAddrCall DefaultResolver None ''192.0.2.7'']\<rparr>)
           \<and> map_of (evictList c') ''r192.0.2.7''
               = Some \<lparr>rrs = [], err = Some (ResolveError ''no such host'')\<rparr>)"
proof -
  let ?s0 = "init_state (NewDNSResolver 2)"
  let ?s1 = "\<lparr>resolver = \<lparr>Timeout = 0, Resolver_dns = None,
            cache = Some \<lparr>lru_size = 2, evictList = [(''ha'', \<lparr>rrs = [''192.0.2.1''], err = None\<rparr>)]\<rparr>,
            OnCacheMiss = False\<rparr>,
          lookupGroup = \<lparr>group_m = [], calls = [0]\<rparr>,
          trace = [LookupHostCall DefaultResolver None ''a'']\<rparr>"
  let ?e = "\<lparr>rrs = [], err = Some (ResolveError ''no such host'')\<rparr>"
  let ?c = "\<lparr>lru_size = 2, evictList = [(''r192.0.2.7'', ?e)]\<rparr>"
  let ?t = "\<lparr>resolver = \<lparr>Timeout = 0, Resolver_dns = None, cache = Some ?c, OnCacheMiss = True\<rparr>,
                lookupGroup = \<lparr>group_m = [], calls = [0]\<rparr>,
                trace = [OnCacheMissCall, LookupAddrCall DefaultResolver None ''192.0.2.7'']\<rparr>"
  have first: "lookup Background ''ha'' (Some ([''192.0.2.1''], None)) FlightFirst ?s0
     = Returns (([''192.0.2.1''], None), ?s1)"
    by (simp add: model_defs)
  have pre: "cache (resolver ?s0) = Some \<lparr>lru_size = 2, evictList = []\<rparr>
      \<and> 0 < lru_size \<lparr>lru_size = 2, evictList = []\<rparr>
      \<and> lookup Background ''ha'' (Some ([''192.0.2.1''], None)) FlightFirst ?s0
            = Returns (([''192.0.2.1''], None), ?s1)"
    using first by (simp add: init_state_def NewDNSResolver_def lru_New_def)
  from cached_lookup_returns_stored
    [where st = ?s0 and c = "\<lparr>lru_size = 2, evictList = []\<rparr>" and key = "''ha''"
       and cx = Background and ans = "([''192.0.2.1''], None)" and out = "([''192.0.2.1''], None)"
       and ?st1.0 = ?s1 and ?cx2.0 = "DoneCtx Canceled" and ?flight2.0 = None and ?rc2.0 = CtxFirst]
  have again: "\<exists>c2. lookup (DoneCtx Canceled) ''ha'' None CtxFirst ?s1
      = Returns (([''192.0.2.1''], None), ?s1\<lparr>resolver := (resolver ?s1)\<lparr>cache := Some c2\<rparr>\<rparr>)"
    using pre by blast
  have pre1: "cache (resolver ?t) = Some ?c \<and> map_of (evictList ?c) ''r192.0.2.7'' = Some ?e"
    by simp
  have "\<exists>c'. lookup Background ''r192.0.2.7'' (Some ([''a.example.''], None)) FlightFirst ?t
               = Returns ((rrs ?e, err ?e), ?t\<lparr>resolver := (resolver ?t)\<lparr>cache := Some c'\<rparr>\<rparr>)
            \<and> map_of (evictList c') = map_of (evictList ?c) \<and> lru_size c' = lru_size ?c"
    using cached_lookup_returns_stored
      [where st = ?t and c = ?c and key = "''r192.0.2.7''" and entry = ?e and cx = Background
         and flight = "Some ([''a.example.''], None)" and rc = FlightFirst,
       THEN conjunct1, THEN mp, OF pre1] .
  then obtain c' where c': "lookup Background ''r192.0.2.7'' (Some ([''a.example.''], None)) FlightFirst ?t
               = Returns ((rrs ?e, err ?e), ?t\<lparr>resolver := (resolver ?t)\<lparr>cache := Some c'\<rparr>\<rparr>)"
      "map_of (evictList c') = map_of (evictList ?c)"
    by (elim exE conjE)
  have "map_of (evictList c') ''r192.0.2.7'' = Some ?e" using c'(2) by simp
  then have negative: "\<exists>c'. lookup Background ''r192.0.2.7'' (Some ([''a.example.''], None)) FlightFirst ?t
             = Returns (([], Some (ResolveError ''no such host'')),
                 \<lparr>resolver = \<lparr>Timeout = 0, Resolver_dns = None, cache = Some c', OnCacheMiss = True\<rparr>,
                  lookupGroup = \<lparr>group_m = [], calls = [0]\<rparr>,
                  trace = [OnCacheMissCall, LookupAddrCall DefaultResolver None ''192.0.2.7'']\<rparr>)
           \<and> map_of (evictList c') ''r192.0.2.7'' = Some ?e"
    using c'(1) by (intro exI [of _ c']) simp
  from again have again': "\<exists>c2. lookup (DoneCtx Canceled) ''ha'' None CtxFirst ?s1
             = Returns (([''192.0.2.1''], None),
                 \<lparr>resolver = \<lparr>Timeout = 0, Resolver_dns = None, cache = Some c2, OnCacheMiss = False\<rparr>,
                  lookupGroup = \<lparr>group_m = [], calls = [0]\<rparr>,
                  trace = [LookupHostCall DefaultResolver None ''a'']\<rparr>)"
    by simp
  show ?thesis using first again' negative by (intro conjI)
qed

section \<open>A shared result: the second read of the store\<close>

text \<open>
  C2 (amended). When the result a caller receives is marked shared, the caller reads the
  store again before it uses the flight's payload. If the store holds the key, that
  entry's results and failure are returned and no entry is written (only the recency
  order of the store changes). Otherwise the flight's failure is returned and written,
  with the flight's results when the failure is nil and with empty results when it is
  not.
\<close>

theorem shared_result_rechecks_store:
  "Shared res \<and> cache (resolver st) = Some c \<longrightarrow>
     (map_of (evictList c) key = Some entry \<longrightarrow>
        (\<exists>c'. update_end key (Received res) st
                 = Returns ((rrs entry, err entry), st\<lparr>resolver := (resolver st)\<lparr>cache := Some c'\<rparr>\<rparr>)
              \<and> map_of (evictList c') = map_of (evictList c)))
     \<and> (map_of (evictList c) key = None \<longrightarrow>
        (\<exists>c'. update_end key (Received res) st
                 = Returns ((if Err res = None then Val res else [], Err res),
                            st\<lparr>resolver := (resolver st)\<lparr>cache := Some c'\<rparr>\<rparr>)
              \<and> (0 < lru_size c \<longrightarrow>
                   map_of (evictList c') key
                     = Some \<lparr>rrs = (if Err res = None then Val res else []), err = Err res\<rparr>)))"
proof (intro impI conjI)
  assume a: "Shared res \<and> cache (resolver st) = Some c"
    and hit: "map_of (evictList c) key = Some entry"
  show "\<exists>c'. update_end key (Received res) st
                 = Returns ((rrs entry, err entry), st\<lparr>resolver := (resolver st)\<lparr>cache := Some c'\<rparr>\<rparr>)
              \<and> map_of (evictList c') = map_of (evictList c)"
    using a hit
    by (intro exI [of _ "snd (lru_Get c key)"]) (simp add: update_end_shared_found map_of_Get)
next
  assume a: "Shared res \<and> cache (resolver st) = Some c"
    and miss: "map_of (evictList c) key = None"
  let ?c = "stored c key (payload_entry res)"
  have "update_end key (Received res) st
      = Returns (payload res, st\<lparr>resolver := (resolver st)\<lparr>cache := Some ?c\<rparr>\<rparr>)"
    using a miss by (simp add: update_end_store)
  moreover have "0 < lru_size c \<longrightarrow> map_of (evictList ?c) key = Some (payload_entry res)"
    by (simp add: map_of_stored_same)
  ultimately show "\<exists>c'. update_end key (Received res) st
                 = Returns ((if Err res = None then Val res else [], Err res),
                            st\<lparr>resolver := (resolver st)\<lparr>cache := Some c'\<rparr>\<rparr>)
              \<and> (0 < lru_size c \<longrightarrow>
                   map_of (evictList c') key
                     = Some \<lparr>rrs = (if Err res = None then Val res else []), err = Err res\<rparr>)"
    by (intro exI [of _ ?c]) (simp add: payload_def payload_entry_def)
qed

text \<open>Two callers of \<open>update\<close> for one key: the first starts the flight, the second
  attaches, the flight returns, the first caller stores the result, the second finds it
  in the store.\<close>

theorem shared_result_rechecks_store_witness:
  "update_begin ''hx'' (init_state (NewDNSResolver 2))
     = Returns (0, \<lparr>resolver = NewDNSResolver 2,
                    lookupGroup = \<lparr>group_m = [(''hx'', 0)], calls = [0]\<rparr>,
                    trace = [LookupHostCall DefaultResolver None ''x'']\<rparr>)
   \<and> update_begin ''hx'' \<lparr>resolver = NewDNSResolver 2,
                    lookupGroup = \<lparr>group_m = [(''hx'', 0)], calls = [0]\<rparr>,
                    trace = [LookupHostCall DefaultResolver None ''x'']\<rparr>
     = Returns (0, \<lparr>resolver = NewDNSResolver 2,
                    lookupGroup = \<lparr>group_m = [(''hx'', 0)], calls = [1]\<rparr>,
                    trace = [LookupHostCall DefaultResolver None ''x'']\<rparr>)
   \<and> doCall \<lparr>group_m = [(''hx'', 0)], calls = [1]\<rparr> 0 ''hx'' [''192.0.2.1''] None
     = (\<lparr>Val = [''192.0.2.1''], Err = None, Shared = True\<rparr>, \<lparr>group_m = [], calls = [1]\<rparr>)
   \<and> (\<exists>c'. update_end ''hx'' (Received \<lparr>Val = [''192.0.2.1''], Err = None, Shared = True\<rparr>)
              \<lparr>resolver = NewDNSResolver 2, lookupGroup = \<lparr>group_m = [], calls = [1]\<rparr>,
                 trace = [LookupHostCall DefaultResolver None ''x'']\<rparr>
            = Returns (([''192.0.2.1''], None),
                \<lparr>resolver = (NewDNSResolver 2)\<lparr>cache := Some c'\<rparr>,
                   lookupGroup = \<lparr>group_m = [], calls = [1]\<rparr>,
                   trace = [LookupHostCall DefaultResolver None ''x'']\<rparr>)
          \<and> map_of (evictList c') ''hx'' = Some \<lparr>rrs = [''192.0.2.1''], err = None\<rparr>)
   \<and> (\<exists>c'. update_end ''hx'' (Received \<lparr>Val = [''192.0.2.1''], Err = None, Shared = True\<rparr>)
              \<lparr>resolver = (NewDNSResolver 2)
                   \<lparr>cache := Some \<lparr>lru_size = 2,
                        evictList = [(''hx'', \<lparr>rrs = [''192.0.2.9''], err = None\<rparr>)]\<rparr>\<rparr>,
                 lookupGroup = \<lparr>group_m = [], calls = [1]\<rparr>,
                 trace = [LookupHostCall DefaultResolver None ''x'']\<rparr>
            = Returns (([''192.0.2.9''], None),
                \<lparr>resolver = (NewDNSResolver 2)\<lparr>cache := Some c'\<rparr>,
                   lookupGroup = \<lparr>group_m = [], calls = [1]\<rparr>,
                   trace = [LookupHostCall DefaultResolver None ''x'']\<rparr>)
          \<and> map_of (evictList c') ''hx'' = Some \<lparr>rrs = [''192.0.2.9''], err = None\<rparr>)"
proof -
  let ?res = "\<lparr>Val = [''192.0.2.1''], Err = None, Shared = True\<rparr>"
  let ?s = "\<lparr>resolver = NewDNSResolver 2, lookupGroup = \<lparr>group_m = [], calls = [1]\<rparr>,
                 trace = [LookupHostCall DefaultResolver None ''x'']\<rparr>"
  let ?c = "\<lparr>lru_size = 2, evictList = [(''hx'', \<lparr>rrs = [''192.0.2.9''], err = None\<rparr>)]\<rparr>"
  let ?t = "?s\<lparr>resolver := (NewDNSResolver 2)\<lparr>cache := Some ?c\<rparr>\<rparr>"
  have steps: "update_begin ''hx'' (init_state (NewDNSResolver 2))
     = Returns (0, \<lparr>resolver = NewDNSResolver 2,
                    lookupGroup = \<lparr>group_m = [(''hx'', 0)], calls = [0]\<rparr>,
                    trace = [LookupHostCall DefaultResolver None ''x'']\<rparr>)"
    "update_begin ''hx'' \<lparr>resolver = NewDNSResolver 2,
                    lookupGroup = \<lparr>group_m = [(''hx'', 0)], calls = [0]\<rparr>,
                    trace = [LookupHostCall DefaultResolver None ''x'']\<rparr>
     = Returns (0, \<lparr>resolver = NewDNSResolver 2,
                    lookupGroup = \<lparr>group_m = [(''hx'', 0)], calls = [1]\<rparr>,
                    trace = [LookupHostCall DefaultResolver None ''x'']\<rparr>)"
    "doCall \<lparr>group_m = [(''hx'', 0)], calls = [1]\<rparr> 0 ''hx'' [''192.0.2.1''] None
     = (?res, \<lparr>group_m = [], calls = [1]\<rparr>)"
    by (simp_all add: model_defs)
  have miss: "\<exists>c'. update_end ''hx'' (Received ?res) ?s
        = Returns (([''192.0.2.1''], None), ?s\<lparr>resolver := (resolver ?s)\<lparr>cache := Some c'\<rparr>\<rparr>)
      \<and> map_of (evictList c') ''hx'' = Some \<lparr>rrs = [''192.0.2.1''], err = None\<rparr>"
    using shared_result_rechecks_store
      [where res = ?res and st = ?s and c = "\<lparr>lru_size = 2, evictList = []\<rparr>" and key = "''hx''"]
    by (simp add: NewDNSResolver_def lru_New_def)
  have hit: "\<exists>c'. update_end ''hx'' (Received ?res) ?t
        = Returns (([''192.0.2.9''], None), ?t\<lparr>resolver := (resolver ?t)\<lparr>cache := Some c'\<rparr>\<rparr>)
      \<and> map_of (evictList c') = map_of (evictList ?c)"
    using shared_result_rechecks_store
      [where res = ?res and st = ?t and c = ?c and key = "''hx''"
         and entry = "\<lparr>rrs = [''192.0.2.9''], err = None\<rparr>"]
    by simp
  from miss obtain c1 where c1: "update_end ''hx'' (Received ?res) ?s
        = Returns (([''192.0.2.1''], None), ?s\<lparr>resolver := (resolver ?s)\<lparr>cache := Some c1\<rparr>\<rparr>)"
      "map_of (evictList c1) ''hx'' = Some \<lparr>rrs = [''192.0.2.1''], err = None\<rparr>" by blast
  from hit obtain c2 where c2: "update_end ''hx'' (Received ?res) ?t
        = Returns (([''192.0.2.9''], None), ?t\<lparr>resolver := (resolver ?t)\<lparr>cache := Some c2\<rparr>\<rparr>)"
      "map_of (evictList c2) = map_of (evictList ?c)" by blast
  have "map_of (evictList c2) ''hx'' = Some \<lparr>rrs = [''192.0.2.9''], err = None\<rparr>"
    using c2(2) by simp
  with c1 c2(1) steps show ?thesis
    by (intro conjI exI [of _ c1] exI [of _ c2]) simp_all
qed

text \<open>That the flight's own results are returned fails where the flight carries results
  together with a failure, as \<open>net.Resolver.LookupAddr\<close> does for a response with
  malformed records: the results are dropped, the caller gets and the store keeps the
  failure alone.\<close>

theorem shared_result_payload_counterexample:
  "doCall \<lparr>group_m = [(''r192.0.2.7'', 0)], calls = [1]\<rparr> 0 ''r192.0.2.7''
       [''a.example.''] (Some (ResolveError ''malformed''))
     = (\<lparr>Val = [''a.example.''], Err = Some (ResolveError ''malformed''), Shared = True\<rparr>,
        \<lparr>group_m = [], calls = [1]\<rparr>)
   \<and> update_end ''r192.0.2.7''
       (Received \<lparr>Val = [''a.example.''], Err = Some (ResolveError ''malformed''), Shared = True\<rparr>)
       \<lparr>resolver = NewDNSResolver 2, lookupGroup = \<lparr>group_m = [], calls = [1]\<rparr>,
          trace = [LookupAddrCall DefaultResolver None ''192.0.2.7'']\<rparr>
     = Returns (([], Some (ResolveError ''malformed'')),
         \<lparr>resolver = (NewDNSResolver 2)
              \<lparr>cache := Some \<lparr>lru_size = 2,
                   evictList = [(''r192.0.2.7'', \<lparr>rrs = [], err = Some (ResolveError ''malformed'')\<rparr>)]\<rparr>\<rparr>,
            lookupGroup = \<lparr>group_m = [], calls = [1]\<rparr>,
            trace = [LookupAddrCall DefaultResolver None ''192.0.2.7'']\<rparr>)
   \<and> ([], Some (ResolveError ''malformed''))
       \<noteq> (Val \<lparr>Val = [''a.example.''], Err = Some (ResolveError ''malformed''), Shared = True\<rparr>,
           Err \<lparr>Val = [''a.example.''], Err = Some (ResolveError ''malformed''), Shared = True\<rparr>)"
  by (simp add: model_defs)

section \<open>A caller whose context is done first\<close>

lemma update_ctx_done:
  assumes vk: "valid_key key" and first: "flight = None \<or> rc = CtxFirst"
  shows "\<exists>st'. update (DoneCtx e) key flight rc st = Returns (([], Some e), st')
               \<and> resolver st' = resolver st \<and> trace st' = trace (begun key st)"
proof (cases flight)
  case None
  then show ?thesis using vk
    by (simp add: update_pending update_end_CtxDone resolver_begun)
next
  case (Some ans)
  obtain v e' where ans: "ans = (v, e')" by (cases ans)
  from Some first have "rc = CtxFirst" by simp
  then show ?thesis using vk Some ans
    by (simp add: update_ctx_first update_end_CtxDone resolver_landed trace_landed)
qed

lemma lookup_ctx_done:
  assumes c: "cache (resolver st) = Some c" and miss: "map_of (evictList c) key = None"
    and vk: "valid_key key" and first: "flight = None \<or> rc = CtxFirst"
  shows "\<exists>st'. lookup (DoneCtx e) key flight rc st = Returns (([], Some e), st')
               \<and> resolver st' = resolver st"
proof -
  let ?st = "st\<lparr>trace := trace st @ (if OnCacheMiss (resolver st) then [OnCacheMissCall] else [])\<rparr>"
  have "lookup (DoneCtx e) key flight rc st = update (DoneCtx e) key flight rc ?st"
    using c miss by (rule lookup_miss)
  moreover obtain st' where "update (DoneCtx e) key flight rc ?st = Returns (([], Some e), st')"
    "resolver st' = resolver ?st"
    using update_ctx_done [OF vk first, of e ?st] by blast
  ultimately show ?thesis by simp
qed

text \<open>
  C3. A caller whose own context is done first (the flight has not returned, or both
  cases of the \<open>select\<close> are ready and the context's is taken) receives the context's
  error with no results, and the resolver object, the store in it included, is exactly
  what it was: nothing is created or updated. This holds for \<open>update\<close> on every key
  \<open>lookupFunc\<close> accepts, for \<open>LookupHost\<close> and \<open>LookupAddr\<close> on a key the store does
  not hold (a key it holds is answered from the store without waiting), and for the
  \<open>select\<close> case itself in every state.
\<close>

theorem cancelled_caller_leaves_store:
  "(flight = None \<or> rc = CtxFirst \<longrightarrow>
      (valid_key key \<longrightarrow>
         (\<exists>st'. update (DoneCtx e) key flight rc st = Returns (([], Some e), st')
               \<and> resolver st' = resolver st))
    \<and> (cache (resolver st) = Some c \<and> map_of (evictList c) (host_key h) = None \<longrightarrow>
         (\<exists>st'. LookupHost (DoneCtx e) h flight rc st = Returns (([], Some e), st')
               \<and> resolver st' = resolver st))
    \<and> (cache (resolver st) = Some c \<and> map_of (evictList c) (addr_key a) = None \<longrightarrow>
         (\<exists>st'. LookupAddr (DoneCtx e) a flight rc st = Returns (([], Some e), st')
               \<and> resolver st' = resolver st)))
   \<and> (\<exists>st'. update_end key (CtxDone e) st = Returns (([], Some e), st')
             \<and> resolver st' = resolver st)"
proof (intro conjI impI)
  assume "flight = None \<or> rc = CtxFirst" "valid_key key"
  then show "\<exists>st'. update (DoneCtx e) key flight rc st = Returns (([], Some e), st')
               \<and> resolver st' = resolver st"
    using update_ctx_done [of key flight rc e st] by blast
next
  assume "flight = None \<or> rc = CtxFirst"
    "cache (resolver st) = Some c \<and> map_of (evictList c) (host_key h) = None"
  then show "\<exists>st'. LookupHost (DoneCtx e) h flight rc st = Returns (([], Some e), st')
               \<and> resolver st' = resolver st"
    using lookup_ctx_done [of st c "host_key h" flight rc e]
    by (simp add: LookupHost_def valid_host_key)
next
  assume "flight = None \<or> rc = CtxFirst"
    "cache (resolver st) = Some c \<and> map_of (evictList c) (addr_key a) = None"
  then show "\<exists>st'. LookupAddr (DoneCtx e) a flight rc st = Returns (([], Some e), st')
               \<and> resolver st' = resolver st"
    using lookup_ctx_done [of st c "addr_key a" flight rc e]
    by (simp add: LookupAddr_def valid_addr_key)
next
  show "\<exists>st'. update_end key (CtxDone e) st = Returns (([], Some e), st')
             \<and> resolver st' = resolver st"
    by (simp add: update_end_CtxDone)
qed

theorem cancelled_caller_leaves_store_witness:
  "LookupHost (DoneCtx DeadlineExceeded) ''example.com'' None FlightFirst (init_state (NewDNSResolver 2))
     = Returns (([], Some DeadlineExceeded),
         \<lparr>resolver = NewDNSResolver 2, lookupGroup = \<lparr>group_m = [], calls = [0]\<rparr>,
            trace = [LookupHostCall DefaultResolver None ''example.com'']\<rparr>)
   \<and> LookupAddr (DoneCtx Canceled) ''192.0.2.7'' (Some ([''a.example.''], None)) CtxFirst
         (init_state (NewDNSResolver 2))
     = Returns (([], Some Canceled),
         \<lparr>resolver = NewDNSResolver 2, lookupGroup = \<lparr>group_m = [], calls = [0]\<rparr>,
            trace = [LookupAddrCall DefaultResolver None ''192.0.2.7'']\<rparr>)
   \<and> (\<exists>st'. update (DoneCtx Canceled) ''hexample.com'' None FlightFirst (init_state (NewDNSResolver 2))
              = Returns (([], Some Canceled), st')
            \<and> resolver st' = NewDNSResolver 2)
   \<and> (\<exists>st'. LookupHost (DoneCtx DeadlineExceeded) ''example.com'' None FlightFirst
                (init_state (NewDNSResolver 2))
              = Returns (([], Some DeadlineExceeded), st')
            \<and> resolver st' = NewDNSResolver 2)
   \<and> (\<exists>st'. LookupAddr (DoneCtx Canceled) ''192.0.2.7'' (Some ([''a.example.''], None)) CtxFirst
                (init_state (NewDNSResolver 2))
              = Returns (([], Some Canceled), st')
            \<and> resolver st' = NewDNSResolver 2)"
proof -
  let ?s = "init_state (NewDNSResolver 2)"
  let ?c = "\<lparr>lru_size = 2, evictList = []\<rparr>"
  have r: "resolver ?s = NewDNSResolver 2" by (simp add: init_state_def)
  have vk: "valid_key ''hexample.com''" by (simp add: valid_key_def)
  have none: "(None :: (string list \<times> error option) option) = None \<or> FlightFirst = CtxFirst" by simp
  have first: "Some ([''a.example.''], None :: error option) = None \<or> CtxFirst = CtxFirst" by simp
  have ph: "cache (resolver ?s) = Some ?c \<and> map_of (evictList ?c) (host_key ''example.com'') = None"
    by (simp add: init_state_def NewDNSResolver_def lru_New_def)
  have pa: "cache (resolver ?s) = Some ?c \<and> map_of (evictList ?c) (addr_key ''192.0.2.7'') = None"
    by (simp add: init_state_def NewDNSResolver_def lru_New_def)
  have u: "\<exists>st'. update (DoneCtx Canceled) ''hexample.com'' None FlightFirst ?s
              = Returns (([], Some Canceled), st') \<and> resolver st' = resolver ?s"
    using cancelled_caller_leaves_store
      [where flight = None and rc = FlightFirst and key = "''hexample.com''" and e = Canceled
         and st = ?s, THEN conjunct1, THEN mp, OF none, THEN conjunct1, THEN mp, OF vk] .
  have h: "\<exists>st'. LookupHost (DoneCtx DeadlineExceeded) ''example.com'' None FlightFirst ?s
              = Returns (([], Some DeadlineExceeded), st') \<and> resolver st' = resolver ?s"
    using cancelled_caller_leaves_store
      [where flight = None and rc = FlightFirst and h = "''example.com''" and e = DeadlineExceeded
         and st = ?s and c = ?c, THEN conjunct1, THEN mp, OF none, THEN conjunct2, THEN conjunct1,
       THEN mp, OF ph] .
  have a: "\<exists>st'. LookupAddr (DoneCtx Canceled) ''192.0.2.7'' (Some ([''a.example.''], None)) CtxFirst ?s
              = Returns (([], Some Canceled), st') \<and> resolver st' = resolver ?s"
    using cancelled_caller_leaves_store
      [where flight = "Some ([''a.example.''], None)" and rc = CtxFirst and a = "''192.0.2.7''"
         and e = Canceled and st = ?s and c = ?c, THEN conjunct1, THEN mp, OF first,
       THEN conjunct2, THEN conjunct2, THEN mp, OF pa] .
  have eh: "LookupHost (DoneCtx DeadlineExceeded) ''example.com'' None FlightFirst ?s
     = Returns (([], Some DeadlineExceeded),
         \<lparr>resolver = NewDNSResolver 2, lookupGroup = \<lparr>group_m = [], calls = [0]\<rparr>,
            trace = [LookupHostCall DefaultResolver None ''example.com'']\<rparr>)"
    by (simp add: model_defs)
  have ea: "LookupAddr (DoneCtx Canceled) ''192.0.2.7'' (Some ([''a.example.''], None)) CtxFirst ?s
     = Returns (([], Some Canceled),
         \<lparr>resolver = NewDNSResolver 2, lookupGroup = \<lparr>group_m = [], calls = [0]\<rparr>,
            trace = [LookupAddrCall DefaultResolver None ''192.0.2.7'']\<rparr>)"
    by (simp add: model_defs)
  show ?thesis using eh ea u h a unfolding r by (intro conjI)
qed

section \<open>Forgetting the flight\<close>

lemma update_pending_deadline:
  assumes vk: "valid_key key"
  shows "update (DoneCtx DeadlineExceeded) key None rc s
           = Returns (([], Some DeadlineExceeded),
                      (begun key s)\<lparr>lookupGroup := Forget (lookupGroup (begun key s)) key\<rparr>)"
  using vk by (simp add: update_pending update_end_CtxDone)

lemma update_pending_other:
  assumes vk: "valid_key key" and e: "e \<noteq> DeadlineExceeded"
  shows "update (DoneCtx e) key None rc s = Returns (([], Some e), begun key s)"
  using vk e by (simp add: update_pending update_end_CtxDone)

lemma update_pending_marker:
  assumes vk: "valid_key key"
  shows "\<exists>st'. update (DoneCtx e) key None rc s = Returns (([], Some e), st')
              \<and> (map_of (group_m (lookupGroup st')) key = None \<longleftrightarrow> e = DeadlineExceeded)
              \<and> (\<forall>k. k \<noteq> key \<longrightarrow>
                    map_of (group_m (lookupGroup st')) k = map_of (group_m (lookupGroup s)) k)"
proof (cases "e = DeadlineExceeded")
  case True
  let ?st' = "(begun key s)\<lparr>lookupGroup := Forget (lookupGroup (begun key s)) key\<rparr>"
  show ?thesis
  proof (intro exI [of _ ?st'] conjI allI impI)
    show "update (DoneCtx e) key None rc s = Returns (([], Some e), ?st')"
      unfolding True using vk by (rule update_pending_deadline)
    show "map_of (group_m (lookupGroup ?st')) key = None \<longleftrightarrow> e = DeadlineExceeded"
      using True by (simp add: Forget_same)
    fix k assume "k \<noteq> key"
    then show "map_of (group_m (lookupGroup ?st')) k = map_of (group_m (lookupGroup s)) k"
      by (simp add: Forget_other marker_begun_other)
  qed
next
  case False
  show ?thesis
  proof (intro exI [of _ "begun key s"] conjI allI impI)
    show "update (DoneCtx e) key None rc s = Returns (([], Some e), begun key s)"
      using vk False by (rule update_pending_other)
    show "map_of (group_m (lookupGroup (begun key s))) key = None \<longleftrightarrow> e = DeadlineExceeded"
      using False marker_begun [of key s] by simp
    fix k assume "k \<noteq> key"
    then show "map_of (group_m (lookupGroup (begun key s))) k = map_of (group_m (lookupGroup s)) k"
      by (rule marker_begun_other)
  qed
qed

lemma lookup_pending_marker:
  assumes vk: "valid_key key" and c: "cache (resolver st) = Some c"
    and miss: "map_of (evictList c) key = None"
  shows "\<exists>st'. lookup (DoneCtx e) key None rc st = Returns (([], Some e), st')
              \<and> (map_of (group_m (lookupGroup st')) key = None \<longleftrightarrow> e = DeadlineExceeded)"
proof -
  let ?s = "st\<lparr>trace := trace st @ (if OnCacheMiss (resolver st) then [OnCacheMissCall] else [])\<rparr>"
  have eq: "lookup (DoneCtx e) key None rc st = update (DoneCtx e) key None rc ?s"
    using c miss by (rule lookup_miss)
  from update_pending_marker [OF vk, of e rc ?s]
  obtain st' where u: "update (DoneCtx e) key None rc ?s = Returns (([], Some e), st')"
    and m: "map_of (group_m (lookupGroup st')) key = None \<longleftrightarrow> e = DeadlineExceeded"
    by (elim exE conjE)
  show ?thesis
  proof (intro exI [of _ st'] conjI)
    show "lookup (DoneCtx e) key None rc st = Returns (([], Some e), st')"
      by (simp only: eq u)
    show "map_of (group_m (lookupGroup st')) key = None \<longleftrightarrow> e = DeadlineExceeded"
      by (rule m)
  qed
qed

text \<open>
  C4. In the \<open>select\<close> case of a context that is done, the flight coordinator is changed
  by \<open>Forget\<close> of the key when the context's error is \<open>DeadlineExceeded\<close>, and is not
  changed otherwise. So for a caller that waits on a flight which has not returned (its
  marker is in place), the marker of the key is gone afterwards exactly when the error
  is the deadline's; a cancellation leaves it. The markers of other keys stay as
  \<open>DoChan\<close> left them.
\<close>

theorem forget_iff_deadline:
  "(\<exists>st'. update_end key (CtxDone e) st = Returns (([], Some e), st')
         \<and> lookupGroup st' = (if e = DeadlineExceeded then Forget (lookupGroup st) key
                               else lookupGroup st)
         \<and> (map_of (group_m (lookupGroup st)) key \<noteq> None \<longrightarrow>
              (map_of (group_m (lookupGroup st')) key = None \<longleftrightarrow> e = DeadlineExceeded)))
   \<and> (valid_key key \<longrightarrow>
        (\<exists>st'. update (DoneCtx e) key None rc st = Returns (([], Some e), st')
              \<and> (map_of (group_m (lookupGroup st')) key = None \<longleftrightarrow> e = DeadlineExceeded)
              \<and> (\<forall>k. k \<noteq> key \<longrightarrow>
                    map_of (group_m (lookupGroup st')) k = map_of (group_m (lookupGroup st)) k)))
   \<and> (valid_key key \<and> cache (resolver st) = Some c \<and> map_of (evictList c) key = None \<longrightarrow>
        (\<exists>st'. lookup (DoneCtx e) key None rc st = Returns (([], Some e), st')
              \<and> (map_of (group_m (lookupGroup st')) key = None \<longleftrightarrow> e = DeadlineExceeded)))"
proof (intro conjI impI)
  show "\<exists>st'. update_end key (CtxDone e) st = Returns (([], Some e), st')
         \<and> lookupGroup st' = (if e = DeadlineExceeded then Forget (lookupGroup st) key
                               else lookupGroup st)
         \<and> (map_of (group_m (lookupGroup st)) key \<noteq> None \<longrightarrow>
              (map_of (group_m (lookupGroup st')) key = None \<longleftrightarrow> e = DeadlineExceeded))"
    by (simp add: update_end_CtxDone Forget_same)
next
  assume "valid_key key"
  then show "\<exists>st'. update (DoneCtx e) key None rc st = Returns (([], Some e), st')
              \<and> (map_of (group_m (lookupGroup st')) key = None \<longleftrightarrow> e = DeadlineExceeded)
              \<and> (\<forall>k. k \<noteq> key \<longrightarrow>
                    map_of (group_m (lookupGroup st')) k = map_of (group_m (lookupGroup st)) k)"
    by (rule update_pending_marker)
next
  assume a: "valid_key key \<and> cache (resolver st) = Some c \<and> map_of (evictList c) key = None"
  then have "valid_key key" "cache (resolver st) = Some c" "map_of (evictList c) key = None"
    by simp_all
  then show "\<exists>st'. lookup (DoneCtx e) key None rc st = Returns (([], Some e), st')
              \<and> (map_of (group_m (lookupGroup st')) key = None \<longleftrightarrow> e = DeadlineExceeded)"
    by (rule lookup_pending_marker)
qed

theorem forget_iff_deadline_witness:
  "lookup (DoneCtx DeadlineExceeded) ''hexample.com'' None FlightFirst (init_state (NewDNSResolver 2))
     = Returns (([], Some DeadlineExceeded),
         \<lparr>resolver = NewDNSResolver 2, lookupGroup = \<lparr>group_m = [], calls = [0]\<rparr>,
            trace = [LookupHostCall DefaultResolver None ''example.com'']\<rparr>)
   \<and> lookup (DoneCtx Canceled) ''hexample.com'' None FlightFirst (init_state (NewDNSResolver 2))
     = Returns (([], Some Canceled),
         \<lparr>resolver = NewDNSResolver 2, lookupGroup = \<lparr>group_m = [(''hexample.com'', 0)], calls = [0]\<rparr>,
            trace = [LookupHostCall DefaultResolver None ''example.com'']\<rparr>)
   \<and> (\<exists>st'. lookup (DoneCtx Canceled) ''hexample.com'' None FlightFirst (init_state (NewDNSResolver 2))
              = Returns (([], Some Canceled), st')
           \<and> map_of (group_m (lookupGroup st')) ''hexample.com'' \<noteq> None)
   \<and> (\<exists>st'. lookup (DoneCtx DeadlineExceeded) ''hexample.com'' None FlightFirst (init_state (NewDNSResolver 2))
              = Returns (([], Some DeadlineExceeded), st')
           \<and> map_of (group_m (lookupGroup st')) ''hexample.com'' = None)
   \<and> (\<exists>st'. update (DoneCtx DeadlineExceeded) ''r192.0.2.7'' None CtxFirst (init_state (NewDNSResolver 2))
              = Returns (([], Some DeadlineExceeded), st')
           \<and> map_of (group_m (lookupGroup st')) ''r192.0.2.7'' = None)
   \<and> (\<exists>st'. update_end ''hexample.com'' (CtxDone Canceled)
                \<lparr>resolver = NewDNSResolver 2,
                   lookupGroup = \<lparr>group_m = [(''hexample.com'', 0)], calls = [1]\<rparr>,
                   trace = [LookupHostCall DefaultResolver None ''example.com'']\<rparr>
              = Returns (([], Some Canceled), st')
           \<and> lookupGroup st' = \<lparr>group_m = [(''hexample.com'', 0)], calls = [1]\<rparr>
           \<and> map_of (group_m (lookupGroup st')) ''hexample.com'' \<noteq> None)"
proof -
  let ?s = "init_state (NewDNSResolver 2)"
  let ?g = "\<lparr>group_m = [(''hexample.com'', 0)], calls = [1]\<rparr>"
  let ?w = "\<lparr>resolver = NewDNSResolver 2, lookupGroup = ?g,
             trace = [LookupHostCall DefaultResolver None ''example.com'']\<rparr>"
  have pre: "valid_key ''hexample.com'' \<and> cache (resolver ?s) = Some \<lparr>lru_size = 2, evictList = []\<rparr>
      \<and> map_of (evictList \<lparr>lru_size = 2, evictList = []\<rparr>) ''hexample.com'' = None"
    by (simp add: init_state_def NewDNSResolver_def lru_New_def valid_key_def)
  have vk: "valid_key ''r192.0.2.7''" by (simp add: valid_key_def)
  have c: "\<exists>st'. lookup (DoneCtx Canceled) ''hexample.com'' None FlightFirst ?s
              = Returns (([], Some Canceled), st')
           \<and> map_of (group_m (lookupGroup st')) ''hexample.com'' \<noteq> None"
    using forget_iff_deadline
      [where key = "''hexample.com''" and e = Canceled and st = ?s and rc = FlightFirst
         and c = "\<lparr>lru_size = 2, evictList = []\<rparr>", THEN conjunct2, THEN conjunct2, THEN mp, OF pre]
    by simp
  have d: "\<exists>st'. lookup (DoneCtx DeadlineExceeded) ''hexample.com'' None FlightFirst ?s
              = Returns (([], Some DeadlineExceeded), st')
           \<and> map_of (group_m (lookupGroup st')) ''hexample.com'' = None"
    using forget_iff_deadline
      [where key = "''hexample.com''" and e = DeadlineExceeded and st = ?s and rc = FlightFirst
         and c = "\<lparr>lru_size = 2, evictList = []\<rparr>", THEN conjunct2, THEN conjunct2, THEN mp, OF pre]
    by simp
  have u: "\<exists>st'. update (DoneCtx DeadlineExceeded) ''r192.0.2.7'' None CtxFirst ?s
              = Returns (([], Some DeadlineExceeded), st')
           \<and> map_of (group_m (lookupGroup st')) ''r192.0.2.7'' = None"
    using forget_iff_deadline
      [where key = "''r192.0.2.7''" and e = DeadlineExceeded and st = ?s and rc = CtxFirst,
       THEN conjunct2, THEN conjunct1, THEN mp, OF vk]
    by (elim exE conjE, intro exI conjI) simp_all
  from forget_iff_deadline [where key = "''hexample.com''" and e = Canceled and st = ?w, THEN conjunct1]
  obtain st' where e1: "update_end ''hexample.com'' (CtxDone Canceled) ?w = Returns (([], Some Canceled), st')"
    and e2: "lookupGroup st' = (if Canceled = DeadlineExceeded then Forget (lookupGroup ?w) ''hexample.com''
                               else lookupGroup ?w)"
    and e3: "map_of (group_m (lookupGroup ?w)) ''hexample.com'' \<noteq> None \<longrightarrow>
              (map_of (group_m (lookupGroup st')) ''hexample.com'' = None \<longleftrightarrow> Canceled = DeadlineExceeded)"
    by (elim exE conjE)
  have "map_of (group_m (lookupGroup ?w)) ''hexample.com'' \<noteq> None" by simp
  with e3 have "map_of (group_m (lookupGroup st')) ''hexample.com'' \<noteq> None" by simp
  moreover have "lookupGroup st' = ?g" using e2 by simp
  ultimately have ue: "\<exists>st'. update_end ''hexample.com'' (CtxDone Canceled) ?w
              = Returns (([], Some Canceled), st')
           \<and> lookupGroup st' = ?g
           \<and> map_of (group_m (lookupGroup st')) ''hexample.com'' \<noteq> None"
    using e1 by (intro exI [of _ st'] conjI)
  have l1: "lookup (DoneCtx DeadlineExceeded) ''hexample.com'' None FlightFirst ?s
     = Returns (([], Some DeadlineExceeded),
         \<lparr>resolver = NewDNSResolver 2, lookupGroup = \<lparr>group_m = [], calls = [0]\<rparr>,
            trace = [LookupHostCall DefaultResolver None ''example.com'']\<rparr>)"
    by (simp add: model_defs)
  have l2: "lookup (DoneCtx Canceled) ''hexample.com'' None FlightFirst ?s
     = Returns (([], Some Canceled),
         \<lparr>resolver = NewDNSResolver 2, lookupGroup = \<lparr>group_m = [(''hexample.com'', 0)], calls = [0]\<rparr>,
            trace = [LookupHostCall DefaultResolver None ''example.com'']\<rparr>)"
    by (simp add: model_defs)
  show ?thesis using l1 l2 c d u ue by (intro conjI)
qed

section \<open>A flight that this caller starts\<close>





section \<open>What a call of \<open>update\<close> or \<open>lookup\<close> leaves behind\<close>

lemma update_cases:
  assumes u: "update cx key flight rc st = Returns (out, st')"
  obtains (pending) e where "valid_key key" "cx = DoneCtx e" "flight = None"
      "update_end key (CtxDone e) (begun key st) = Returns (out, st')"
  | (ctx_first) e v e' where "valid_key key" "cx = DoneCtx e" "flight = Some (v, e')" "rc = CtxFirst"
      "update_end key (CtxDone e) (snd (landed key v e' st)) = Returns (out, st')"
  | (received) v e' where "valid_key key" "flight = Some (v, e')"
      "update_end key (Received (fst (landed key v e' st))) (snd (landed key v e' st)) = Returns (out, st')"
proof -
  have vk: "valid_key key" using u by (rule update_Returns_valid)
  show thesis
  proof (cases flight)
    case None
    show thesis
    proof (cases cx)
      case Background
      then show thesis using u None vk by (simp add: update_blocks)
    next
      case (DoneCtx e)
      then show thesis using u None vk pending by (simp add: update_pending)
    qed
  next
    case (Some ans)
    obtain v e' where ans: "ans = (v, e')" by (cases ans)
    show thesis
    proof (cases "cx = Background \<or> rc = FlightFirst")
      case True
      then show thesis using u Some ans vk received [of v e'] by (simp add: update_received)
    next
      case False
      then obtain e where "cx = DoneCtx e" "rc = CtxFirst"
        by (cases cx; cases rc) simp_all
      then show thesis using u Some ans vk ctx_first [of e v e'] by (simp add: update_ctx_first)
    qed
  qed
qed



lemma store_step_refl: "store_step key c c"
  by (auto simp: store_step_def)

lemma store_step_Get: "store_step key c (snd (lru_Get c key))"
  using lru_wf_Get [of c key]
  by (auto simp: store_step_def lru_size_Get set_Keys_Get)

lemma store_step_stored: "store_step key c (stored c key v)"
  using set_Keys_stored [of c key v] set_Keys_stored_present [of c key _ v]
  by (auto simp: store_step_def lru_size_stored lru_wf_stored)

lemma update_end_store_step:
  assumes u: "update_end key sel s = Returns (out, s')" and c: "cache (resolver s) = Some c"
  shows "\<exists>c'. cache (resolver s') = Some c' \<and> store_step key c c'"
proof (cases sel)
  case (CtxDone e)
  then have "resolver s' = resolver s" using u by (auto simp: update_end_CtxDone)
  then show ?thesis using c store_step_refl by simp
next
  case (Received res)
  show ?thesis
  proof (cases "Shared res \<and> map_of (evictList c) key \<noteq> None")
    case True
    then obtain entry where "map_of (evictList c) key = Some entry" by auto
    then have "s' = s\<lparr>resolver := (resolver s)\<lparr>cache := Some (snd (lru_Get c key))\<rparr>\<rparr>"
      using u c True Received by (simp add: update_end_shared_found)
    then show ?thesis using store_step_Get by simp
  next
    case False
    then have "\<not> Shared res \<or> map_of (evictList c) key = None" by auto
    then have "s' = s\<lparr>resolver := (resolver s)\<lparr>cache := Some (stored c key (payload_entry res))\<rparr>\<rparr>"
      using u c Received by (simp add: update_end_store)
    then show ?thesis using store_step_stored by simp
  qed
qed

lemma update_store_step:
  assumes u: "update cx key flight rc st = Returns (out, st')" and c: "cache (resolver st) = Some c"
  shows "\<exists>c'. cache (resolver st') = Some c' \<and> store_step key c c'"
  using u
proof (cases rule: update_cases)
  case (pending e)
  then show ?thesis
    using c update_end_store_step [of key "CtxDone e" "begun key st" out st' c]
    by (simp add: resolver_begun)
next
  case (ctx_first e v e')
  then show ?thesis
    using c update_end_store_step [of key "CtxDone e" "snd (landed key v e' st)" out st' c]
    by (simp add: resolver_landed)
next
  case (received v e')
  then show ?thesis
    using c update_end_store_step [of key "Received (fst (landed key v e' st))"
        "snd (landed key v e' st)" out st' c]
    by (simp add: resolver_landed)
qed

lemma lookup_store_step:
  assumes l: "lookup cx key flight rc st = Returns (out, st')" and c: "cache (resolver st) = Some c"
  shows "\<exists>c'. cache (resolver st') = Some c' \<and> store_step key c c'"
proof (cases "map_of (evictList c) key")
  case None
  let ?s = "st\<lparr>trace := trace st @ (if OnCacheMiss (resolver st) then [OnCacheMissCall] else [])\<rparr>"
  have "update cx key flight rc ?s = Returns (out, st')"
    using l c None by (simp add: lookup_miss)
  moreover have "cache (resolver ?s) = Some c" using c by simp
  ultimately show ?thesis by (rule update_store_step)
next
  case (Some entry)
  then have "st' = st\<lparr>resolver := (resolver st)\<lparr>cache := Some (snd (lru_Get c key))\<rparr>\<rparr>"
    using l c by (simp add: lookup_hit)
  then show ?thesis using store_step_Get by simp
qed

section \<open>The guard of \<open>lookupFunc\<close>\<close>












section \<open>The capacity of the store\<close>

lemma run_nil_cache:
  "cache (resolver st) = None \<Longrightarrow> run reqs st = Returns st' \<Longrightarrow> st' = st"
proof (cases reqs)
  case Nil
  assume "run reqs st = Returns st'"
  then show ?thesis using Nil by simp
next
  case (Cons q qs)
  assume "cache (resolver st) = None" "run reqs st = Returns st'"
  then show ?thesis using Cons
    by (cases q) (simp_all add: LookupHost_def LookupAddr_def lookup_nil)
qed

lemma run_wf:
  "run reqs st = Returns st' \<Longrightarrow> cache (resolver st) = Some c \<Longrightarrow> lru_wf c \<Longrightarrow>
   \<exists>c'. cache (resolver st') = Some c' \<and> lru_wf c' \<and> lru_size c' = lru_size c"
proof (induction reqs arbitrary: st c)
  case Nil
  then show ?case by simp
next
  case (Cons q qs)
  obtain cx s flight rc key where q: "q = Forward cx s flight rc \<and> key = host_key s
      \<or> q = Reverse cx s flight rc \<and> key = addr_key s"
    by (cases q) auto
  from Cons.prems(1) q obtain out st1 where l: "lookup cx key flight rc st = Returns (out, st1)"
    and r: "run qs st1 = Returns st'"
    by (auto simp: LookupHost_def LookupAddr_def split: outcome.splits)
  from lookup_store_step [OF l Cons.prems(2)] obtain c1
    where c1: "cache (resolver st1) = Some c1" "store_step key c c1" by blast
  then have wf1: "lru_wf c1" "lru_size c1 = lru_size c"
    using Cons.prems(3) by (simp_all add: store_step_def)
  from Cons.IH [OF r c1(1) wf1(1)] wf1(2) show ?case by simp
qed

lemma storeLocked_new_key:
  assumes c: "cache r = Some c" and wf: "lru_wf c" and new: "map_of (evictList c) key = None"
  shows "storeLocked r key rs e = Returns (r\<lparr>cache := Some (lru_Add c key \<lparr>rrs = rs, err = e\<rparr>)\<rparr>)
     \<and> lru_Keys (lru_Add c key \<lparr>rrs = rs, err = e\<rparr>)
         = (if int (length (evictList c)) < lru_size c then lru_Keys c @ [key]
            else tl (lru_Keys c) @ [key])"
proof -
  have "lru_Keys c \<noteq> []" if "\<not> int (length (evictList c)) < lru_size c"
    using that wf by (auto simp: lru_wf_def lru_Keys_def)
  then show ?thesis using c new
    by (simp add: storeLocked_stored stored_absent lru_Keys_Add_room lru_Keys_Add_full)
qed

text \<open>
  C6. A resolver made by \<open>NewDNSResolver n\<close> never holds more than \<open>n\<close> entries,
  whatever lookups are run on it (with no store at all when \<open>n\<close> is not positive, where
  no lookup returns). \<open>storeLocked\<close> of a key the store does not hold appends the key as
  the newest; when the store is full it drops exactly the oldest key, the head of
  \<open>Keys()\<close>, and nothing else. A hit makes its key the newest. With capacity 2, after
  forward lookups of a, b and c that all miss and succeed the store holds b and c, and a
  further lookup of a misses: the underlying resolver is called for a again.
\<close>

theorem store_bounded_lru:
  "(run reqs (init_state (NewDNSResolver n)) = Returns st' \<longrightarrow>
      (case cache (resolver st') of
         None \<Rightarrow> n \<le> 0
       | Some c \<Rightarrow> lru_size c = n \<and> int (length (evictList c)) \<le> n \<and> distinct (lru_Keys c)))
   \<and> (cache r = Some c \<and> lru_wf c \<and> map_of (evictList c) key = None \<longrightarrow>
      (\<exists>c'. storeLocked r key rs e = Returns (r\<lparr>cache := Some c'\<rparr>)
           \<and> lru_Keys c' = (if int (length (evictList c)) < lru_size c then lru_Keys c @ [key]
                             else tl (lru_Keys c) @ [key])))
   \<and> (cache r = Some c \<and> map_of (evictList c) key = Some entry \<longrightarrow>
      (\<exists>c'. load r key = Returns ((rrs entry, True, err entry), r\<lparr>cache := Some c'\<rparr>)
           \<and> lru_Keys c' = filter (\<lambda>k. k \<noteq> key) (lru_Keys c) @ [key]))
   \<and> (\<exists>st3 c3 st4.
         run [Forward Background ''a'' (Some (va, None)) rca,
              Forward Background ''b'' (Some (vb, None)) rcb,
              Forward Background ''c'' (Some (vc, None)) rcc] (init_state (NewDNSResolver 2))
           = Returns st3
         \<and> cache (resolver st3) = Some c3 \<and> lru_Keys c3 = [host_key ''b'', host_key ''c'']
         \<and> LookupHost Background ''a'' (Some (va', None)) rca' st3 = Returns ((va', None), st4)
         \<and> trace st4 = trace st3 @ [LookupHostCall DefaultResolver None ''a''])"
proof (intro conjI impI)
  assume r: "run reqs (init_state (NewDNSResolver n)) = Returns st'"
  show "case cache (resolver st') of
         None \<Rightarrow> n \<le> 0
       | Some c \<Rightarrow> lru_size c = n \<and> int (length (evictList c)) \<le> n \<and> distinct (lru_Keys c)"
  proof (cases "n \<le> 0")
    case True
    then have "cache (resolver (init_state (NewDNSResolver n))) = None"
      by (simp add: init_state_def NewDNSResolver_def lru_New_def)
    then have "st' = init_state (NewDNSResolver n)" using r by (rule run_nil_cache)
    then show ?thesis using True by (simp add: init_state_def NewDNSResolver_def lru_New_def)
  next
    case False
    let ?c = "\<lparr>lru_size = n, evictList = []\<rparr>"
    have "cache (resolver (init_state (NewDNSResolver n))) = Some ?c" "lru_wf ?c"
      using False by (simp_all add: init_state_def NewDNSResolver_def lru_New_def lru_wf_def)
    from run_wf [OF r this] obtain c' where "cache (resolver st') = Some c'" "lru_wf c'"
      "lru_size c' = n" by auto
    then show ?thesis by (simp add: lru_wf_def lru_Keys_def distinct_rev)
  qed
next
  assume "cache r = Some c \<and> lru_wf c \<and> map_of (evictList c) key = None"
  then show "\<exists>c'. storeLocked r key rs e = Returns (r\<lparr>cache := Some c'\<rparr>)
           \<and> lru_Keys c' = (if int (length (evictList c)) < lru_size c then lru_Keys c @ [key]
                             else tl (lru_Keys c) @ [key])"
    using storeLocked_new_key [of r c key rs e] by blast
next
  assume "cache r = Some c \<and> map_of (evictList c) key = Some entry"
  then show "\<exists>c'. load r key = Returns ((rrs entry, True, err entry), r\<lparr>cache := Some c'\<rparr>)
           \<and> lru_Keys c' = filter (\<lambda>k. k \<noteq> key) (lru_Keys c) @ [key]"
    by (intro exI [of _ "snd (lru_Get c key)"]) (simp add: load_hit lru_Keys_Get_hit)
next
  show "\<exists>st3 c3 st4.
         run [Forward Background ''a'' (Some (va, None)) rca,
              Forward Background ''b'' (Some (vb, None)) rcb,
              Forward Background ''c'' (Some (vc, None)) rcc] (init_state (NewDNSResolver 2))
           = Returns st3
         \<and> cache (resolver st3) = Some c3 \<and> lru_Keys c3 = [host_key ''b'', host_key ''c'']
         \<and> LookupHost Background ''a'' (Some (va', None)) rca' st3 = Returns ((va', None), st4)
         \<and> trace st4 = trace st3 @ [LookupHostCall DefaultResolver None ''a'']"
    by (simp add: model_defs)
qed

theorem store_bounded_lru_witness:
  "run [Forward Background ''a'' (Some ([''192.0.2.1''], None)) FlightFirst,
        Forward Background ''b'' (Some ([''192.0.2.2''], None)) FlightFirst,
        Forward (DoneCtx Canceled) ''a'' None FlightFirst,
        Forward Background ''c'' (Some ([''192.0.2.3''], None)) FlightFirst]
       (init_state (NewDNSResolver 2))
     = Returns
        \<lparr>resolver = (NewDNSResolver 2)
           \<lparr>cache := Some \<lparr>lru_size = 2,
              evictList = [(''hc'', \<lparr>rrs = [''192.0.2.3''], err = None\<rparr>),
                           (''ha'', \<lparr>rrs = [''192.0.2.1''], err = None\<rparr>)]\<rparr>\<rparr>,
         lookupGroup = \<lparr>group_m = [], calls = [0, 0, 0]\<rparr>,
         trace = [LookupHostCall DefaultResolver None ''a'',
                  LookupHostCall DefaultResolver None ''b'',
                  LookupHostCall DefaultResolver None ''c'']\<rparr>
   \<and> (case cache (resolver
          \<lparr>resolver = (NewDNSResolver 2)
             \<lparr>cache := Some \<lparr>lru_size = 2,
                evictList = [(''hc'', \<lparr>rrs = [''192.0.2.3''], err = None\<rparr>),
                             (''ha'', \<lparr>rrs = [''192.0.2.1''], err = None\<rparr>)]\<rparr>\<rparr>,
           lookupGroup = \<lparr>group_m = [], calls = [0, 0, 0]\<rparr>,
           trace = [LookupHostCall DefaultResolver None ''a'',
                    LookupHostCall DefaultResolver None ''b'',
                    LookupHostCall DefaultResolver None ''c'']\<rparr>) of
         None \<Rightarrow> (2::int) \<le> 0
       | Some c \<Rightarrow> lru_size c = 2 \<and> int (length (evictList c)) \<le> 2 \<and> distinct (lru_Keys c))
   \<and> (\<exists>c'. storeLocked
              ((NewDNSResolver 2)
                 \<lparr>cache := Some \<lparr>lru_size = 2,
                    evictList = [(''hb'', \<lparr>rrs = [''192.0.2.2''], err = None\<rparr>),
                                 (''ha'', \<lparr>rrs = [''192.0.2.1''], err = None\<rparr>)]\<rparr>\<rparr>)
              ''hc'' [''192.0.2.3''] None
            = Returns ((NewDNSResolver 2)\<lparr>cache := Some c'\<rparr>)
          \<and> lru_Keys c' = [''hb'', ''hc''])
   \<and> (\<exists>c'. load
              ((NewDNSResolver 2)
                 \<lparr>cache := Some \<lparr>lru_size = 2,
                    evictList = [(''hb'', \<lparr>rrs = [''192.0.2.2''], err = None\<rparr>),
                                 (''ha'', \<lparr>rrs = [''192.0.2.1''], err = None\<rparr>)]\<rparr>\<rparr>)
              ''ha''
            = Returns (([''192.0.2.1''], True, None), (NewDNSResolver 2)\<lparr>cache := Some c'\<rparr>)
          \<and> lru_Keys c' = [''hb'', ''ha''])"
proof -
  let ?reqs = "[Forward Background ''a'' (Some ([''192.0.2.1''], None)) FlightFirst,
        Forward Background ''b'' (Some ([''192.0.2.2''], None)) FlightFirst,
        Forward (DoneCtx Canceled) ''a'' None FlightFirst,
        Forward Background ''c'' (Some ([''192.0.2.3''], None)) FlightFirst]"
  let ?S = "\<lparr>resolver = (NewDNSResolver 2)
           \<lparr>cache := Some \<lparr>lru_size = 2,
              evictList = [(''hc'', \<lparr>rrs = [''192.0.2.3''], err = None\<rparr>),
                           (''ha'', \<lparr>rrs = [''192.0.2.1''], err = None\<rparr>)]\<rparr>\<rparr>,
         lookupGroup = \<lparr>group_m = [], calls = [0, 0, 0]\<rparr>,
         trace = [LookupHostCall DefaultResolver None ''a'',
                  LookupHostCall DefaultResolver None ''b'',
                  LookupHostCall DefaultResolver None ''c'']\<rparr>"
  let ?c = "\<lparr>lru_size = 2,
                    evictList = [(''hb'', \<lparr>rrs = [''192.0.2.2''], err = None\<rparr>),
                                 (''ha'', \<lparr>rrs = [''192.0.2.1''], err = None\<rparr>)]\<rparr>"
  let ?r = "(NewDNSResolver 2)\<lparr>cache := Some ?c\<rparr>"
  have ran: "run ?reqs (init_state (NewDNSResolver 2)) = Returns ?S"
    by (simp add: model_defs)
  have bound: "case cache (resolver ?S) of
         None \<Rightarrow> (2::int) \<le> 0
       | Some c \<Rightarrow> lru_size c = 2 \<and> int (length (evictList c)) \<le> 2 \<and> distinct (lru_Keys c)"
    using store_bounded_lru [where reqs = ?reqs and n = 2 and st' = ?S, THEN conjunct1, THEN mp, OF ran] .
  have p2: "cache ?r = Some ?c \<and> lru_wf ?c \<and> map_of (evictList ?c) ''hc'' = None"
    by (simp add: lru_wf_def)
  have evict: "\<exists>c'. storeLocked ?r ''hc'' [''192.0.2.3''] None = Returns (?r\<lparr>cache := Some c'\<rparr>)
          \<and> lru_Keys c' = (if int (length (evictList ?c)) < lru_size ?c then lru_Keys ?c @ [''hc'']
                            else tl (lru_Keys ?c) @ [''hc''])"
    using store_bounded_lru [where r = ?r and c = ?c and key = "''hc''" and rs = "[''192.0.2.3'']"
        and e = None, THEN conjunct2, THEN conjunct1, THEN mp, OF p2] .
  have p3: "cache ?r = Some ?c \<and> map_of (evictList ?c) ''ha'' = Some \<lparr>rrs = [''192.0.2.1''], err = None\<rparr>"
    by simp
  have touch: "\<exists>c'. load ?r ''ha''
        = Returns ((rrs \<lparr>rrs = [''192.0.2.1''], err = None\<rparr>, True, err \<lparr>rrs = [''192.0.2.1''], err = None\<rparr>),
                   ?r\<lparr>cache := Some c'\<rparr>)
      \<and> lru_Keys c' = filter (\<lambda>k. k \<noteq> ''ha'') (lru_Keys ?c) @ [''ha'']"
    using store_bounded_lru [where r = ?r and c = ?c and key = "''ha''"
        and entry = "\<lparr>rrs = [''192.0.2.1''], err = None\<rparr>",
        THEN conjunct2, THEN conjunct2, THEN conjunct1, THEN mp, OF p3] .
  from evict obtain c1 where c1: "storeLocked ?r ''hc'' [''192.0.2.3''] None = Returns (?r\<lparr>cache := Some c1\<rparr>)"
    "lru_Keys c1 = [''hb'', ''hc'']"
    by (auto simp: lru_Keys_def)
  from touch obtain c2 where c2: "load ?r ''ha''
        = Returns (([''192.0.2.1''], True, None), ?r\<lparr>cache := Some c2\<rparr>)"
    "lru_Keys c2 = [''hb'', ''ha'']"
    by (auto simp: lru_Keys_def)
  show ?thesis
  proof (intro conjI)
    show "run ?reqs (init_state (NewDNSResolver 2)) = Returns ?S" by (rule ran)
    show "case cache (resolver ?S) of
         None \<Rightarrow> (2::int) \<le> 0
       | Some c \<Rightarrow> lru_size c = 2 \<and> int (length (evictList c)) \<le> 2 \<and> distinct (lru_Keys c)"
      by (rule bound)
    show "\<exists>c'. storeLocked ?r ''hc'' [''192.0.2.3''] None = Returns ((NewDNSResolver 2)\<lparr>cache := Some c'\<rparr>)
          \<and> lru_Keys c' = [''hb'', ''hc'']"
      using c1 by (intro exI [of _ c1]) simp
    show "\<exists>c'. load ?r ''ha'' = Returns (([''192.0.2.1''], True, None), (NewDNSResolver 2)\<lparr>cache := Some c'\<rparr>)
          \<and> lru_Keys c' = [''hb'', ''ha'']"
      using c2 by (intro exI [of _ c2]) simp
  qed
qed

section \<open>\<open>Refresh\<close> with no flight in progress\<close>





section \<open>States that lookups and refreshes reach\<close>











section \<open>The loop of \<open>Refresh\<close>, whatever flights are in progress\<close>







section \<open>The refresh sweep\<close>




section \<open>The miss hook\<close>



end
